theory Spec2Isabelle
  imports Complex_Main "HOL-Library.AList" "HOL-Library.Multiset"
begin

section \<open>Values and their encoding\<close>

text \<open>
  The values of the host language that a caller can hand to \<^verbatim>\<open>setCell\<close>. A finite number is
  identified with the rational it denotes (so \<^verbatim>\<open>-0\<close> and \<^verbatim>\<open>0\<close> coincide); the three
  non-finite numbers are constructors of their own. An object is the list of its own
  properties in enumeration order.
\<close>

datatype jsval =
    JUndefined
  | JNull
  | JBool bool
  | JNum rat
  | JNaN
  | JInfinity
  | JNegInfinity
  | JStr string
  | JArr "jsval list"
  | JObj "(string \<times> jsval) list"

text \<open>
  The text held in the columns \<^verbatim>\<open>cells.value\<close> and \<^verbatim>\<open>columns.options\<close> is a JSON text. It is
  modelled by its syntax tree: printing and reading the characters is the work of the
  language's built-in \<^verbatim>\<open>JSON\<close> object, which is not part of db.js. Every JSON text has at least one
  character, so the truthiness test \<^verbatim>\<open>data.value ? ... : null\<close> of db.js is the test for SQL NULL.
\<close>

datatype json =
    TNull
  | TBool bool
  | TNum rat
  | TStr string
  | TArr "json list"
  | TObj "(string \<times> json) list"

text \<open>
  \<^verbatim>\<open>JSON.stringify\<close>: \<open>None\<close> is the result \<^verbatim>\<open>undefined\<close>. Non-finite numbers are printed as
  \<^verbatim>\<open>null\<close>; an \<^verbatim>\<open>undefined\<close> element of an array is printed as \<^verbatim>\<open>null\<close>; a property whose value
  is \<^verbatim>\<open>undefined\<close> is left out.
\<close>

fun array_element :: "json option \<Rightarrow> json" where
  "array_element None = TNull"
| "array_element (Some j) = j"

fun object_member :: "string \<times> json option \<Rightarrow> (string \<times> json) option" where
  "object_member (k, None) = None"
| "object_member (k, Some j) = Some (k, j)"

primrec JSON_stringify :: "jsval \<Rightarrow> json option" where
  "JSON_stringify JUndefined = None"
| "JSON_stringify JNull = Some TNull"
| "JSON_stringify (JBool b) = Some (TBool b)"
| "JSON_stringify (JNum q) = Some (TNum q)"
| "JSON_stringify JNaN = Some TNull"
| "JSON_stringify JInfinity = Some TNull"
| "JSON_stringify JNegInfinity = Some TNull"
| "JSON_stringify (JStr s) = Some (TStr s)"
| "JSON_stringify (JArr xs) = Some (TArr (map array_element (map JSON_stringify xs)))"
| "JSON_stringify (JObj kvs) =
     Some (TObj (List.map_filter object_member (map (map_prod id JSON_stringify) kvs)))"

text \<open>
  The own properties of an object are enumerated with the array indices first, in
  ascending numeric order, and then the other names in the order of their creation. An
  array index is the canonical decimal numeral of an integer below \<open>2^32 - 1\<close>.
\<close>

definition is_digit :: "char \<Rightarrow> bool" where
  "is_digit c \<longleftrightarrow> 48 \<le> (of_char c :: nat) \<and> (of_char c :: nat) \<le> 57"

definition decimal :: "string \<Rightarrow> nat" where
  "decimal s = foldl (\<lambda>n c. 10 * n + (of_char c - 48)) 0 s"

definition array_index :: "string \<Rightarrow> nat option" where
  "array_index s =
     (if s \<noteq> [] \<and> list_all is_digit s \<and> (s = ''0'' \<or> hd s \<noteq> CHR ''0'') \<and> decimal s < 4294967295
      then Some (decimal s) else None)"

text \<open>
  \<open>key_before k k'\<close>: the keys differ and \<open>k\<close> may stand before \<open>k'\<close> in the enumeration
  (two different names are never the same index, so \<open>\<le>\<close> is \<open><\<close> there).
\<close>

definition key_before :: "string \<Rightarrow> string \<Rightarrow> bool" where
  "key_before k k' \<longleftrightarrow>
     k \<noteq> k' \<and>
     (case array_index k of
        Some i \<Rightarrow> (case array_index k' of Some j \<Rightarrow> i \<le> j | None \<Rightarrow> True)
      | None \<Rightarrow> array_index k' = None)"

text \<open>
  A new own property: an array index goes before the first property that is no array
  index or has a larger index, any other name goes to the end.
\<close>

primrec insert_index :: "nat \<Rightarrow> string \<times> jsval \<Rightarrow> (string \<times> jsval) list \<Rightarrow> (string \<times> jsval) list" where
  "insert_index i kv [] = [kv]"
| "insert_index i kv (p # ps) =
     (case array_index (fst p) of
        None \<Rightarrow> kv # p # ps
      | Some j \<Rightarrow> if i < j then kv # p # ps else p # insert_index i kv ps)"

definition add_property :: "string \<Rightarrow> jsval \<Rightarrow> (string \<times> jsval) list \<Rightarrow> (string \<times> jsval) list" where
  "add_property k v ps =
     (case array_index k of None \<Rightarrow> ps @ [(k, v)] | Some i \<Rightarrow> insert_index i (k, v) ps)"

text \<open>
  Writing an own data property: an existing property keeps its place and takes the new
  value, a missing one is created.
\<close>

definition put_property :: "string \<Rightarrow> jsval \<Rightarrow> (string \<times> jsval) list \<Rightarrow> (string \<times> jsval) list" where
  "put_property k v ps = (if k \<in> fst ` set ps then AList.update k v ps else add_property k v ps)"

text \<open>
  \<^verbatim>\<open>JSON.parse\<close>: the members of an object are defined as own data properties one after
  the other, a repeated key overwriting the earlier value in place.
\<close>

definition define_property :: "(string \<times> jsval) list \<Rightarrow> string \<times> jsval \<Rightarrow> (string \<times> jsval) list" where
  "define_property obj kv = put_property (fst kv) (snd kv) obj"

primrec JSON_parse :: "json \<Rightarrow> jsval" where
  "JSON_parse TNull = JNull"
| "JSON_parse (TBool b) = JBool b"
| "JSON_parse (TNum q) = JNum q"
| "JSON_parse (TStr s) = JStr s"
| "JSON_parse (TArr js) = JArr (map JSON_parse js)"
| "JSON_parse (TObj kvs) = JObj (foldl define_property [] (map (map_prod id JSON_parse) kvs))"

text \<open>
  The values the encoding carries without loss: no \<^verbatim>\<open>undefined\<close> and no non-finite
  number. The properties of an object are listed as the language enumerates them (array
  indices first and ascending, no name twice), which is so for every object.
\<close>

primrec json_safe :: "jsval \<Rightarrow> bool" where
  "json_safe JUndefined = False"
| "json_safe JNull = True"
| "json_safe (JBool b) = True"
| "json_safe (JNum q) = True"
| "json_safe JNaN = False"
| "json_safe JInfinity = False"
| "json_safe JNegInfinity = False"
| "json_safe (JStr s) = True"
| "json_safe (JArr xs) = list_all id (map json_safe xs)"
| "json_safe (JObj kvs) =
     (sorted_wrt key_before (map fst kvs) \<and> list_all snd (map (map_prod id json_safe) kvs))"

section \<open>The store\<close>

text \<open>
  The four relations of \<^verbatim>\<open>DiamantDB.init\<close>, each a list of its rows in insertion order.
  Timestamps are the clock reading in milliseconds; \<^verbatim>\<open>toISOString\<close> prints it with
  millisecond resolution.
\<close>

record tables_row =
  t_id :: nat
  t_name :: string
  t_created_at :: nat

record columns_row =
  c_id :: nat
  c_table_id :: nat
  c_name :: string
  c_type :: string
  c_options :: "json option"
  c_created_at :: nat

record rows_row =
  r_id :: nat
  r_table_id :: nat
  r_position :: int
  r_created_at :: nat

record cells_row =
  x_id :: nat
  x_row_id :: nat
  x_column_id :: nat
  x_value :: "json option"
  x_updated_at :: nat

text \<open>
  The \<^verbatim>\<open>seq_\<close> fields are the AUTOINCREMENT counters: the largest id ever given out in
  each relation.
\<close>

record store =
  db_tables :: "tables_row list"
  db_columns :: "columns_row list"
  db_rows :: "rows_row list"
  db_cells :: "cells_row list"
  seq_tables :: nat
  seq_columns :: nat
  seq_rows :: nat
  seq_cells :: nat

datatype error = SQLITE_CONSTRAINT_FOREIGNKEY | TypeError

text \<open>
  \<^verbatim>\<open>INTEGER PRIMARY KEY AUTOINCREMENT\<close>: the new id is one more than the largest id the
  relation holds or has ever held.
\<close>

definition next_id :: "nat \<Rightarrow> nat list \<Rightarrow> nat" where
  "next_id seq ids = Suc (fold max ids seq)"

text \<open>
  A \<^verbatim>\<open>SELECT ... WHERE table_id = ?\<close> has no order of its own: the rows come in the order of
  the access path SQLite takes. It either walks the relation, which is kept in ascending
  id, or the index on \<^verbatim>\<open>table_id\<close>, whose entries are kept in ascending \<^verbatim>\<open>table_id\<close> and,
  among equal ones, ascending id. The stored lists are in insertion order; the sorting is
  what the walk adds.
\<close>

datatype access_path = Table_scan | Index_scan

fun where_table_id ::
  "access_path \<Rightarrow> ('a \<Rightarrow> nat) \<Rightarrow> ('a \<Rightarrow> nat) \<Rightarrow> nat \<Rightarrow> 'a list \<Rightarrow> 'a list" where
  "where_table_id Table_scan rowid table_id t xs =
     filter (\<lambda>x. table_id x = t) (sort_key rowid xs)"
| "where_table_id Index_scan rowid table_id t xs =
     filter (\<lambda>x. table_id x = t) (sort_key table_id (sort_key rowid xs))"

definition empty_store :: store where
  "empty_store = \<lparr>db_tables = [], db_columns = [], db_rows = [], db_cells = [],
     seq_tables = 0, seq_columns = 0, seq_rows = 0, seq_cells = 0\<rparr>"

text \<open>
  \<^verbatim>\<open>DiamantDB.init\<close>: every statement is \<^verbatim>\<open>CREATE ... IF NOT EXISTS\<close>, so a file that already
  holds the relations is left as it is and a new file gets the four empty relations.
\<close>

fun DiamantDB_init :: "store option \<Rightarrow> store" where
  "DiamantDB_init None = empty_store"
| "DiamantDB_init (Some db) = db"

section \<open>DataTable\<close>

record DataTable =
  dt_id :: nat
  dt_name :: string
  dt_createdAt :: nat

definition DataTable_create :: "store \<Rightarrow> string \<Rightarrow> nat \<Rightarrow> store \<times> DataTable" where
  "DataTable_create db name now =
     (let createdAt = now;
          lastInsertRowid = next_id (seq_tables db) (map t_id (db_tables db))
      in (db\<lparr>db_tables := db_tables db @ [\<lparr>t_id = lastInsertRowid, t_name = name, t_created_at = createdAt\<rparr>],
             seq_tables := lastInsertRowid\<rparr>,
          \<lparr>dt_id = lastInsertRowid, dt_name = name, dt_createdAt = createdAt\<rparr>))"

definition DataTable_get :: "store \<Rightarrow> nat \<Rightarrow> DataTable option" where
  "DataTable_get db i =
     (case find (\<lambda>t. t_id t = i) (db_tables db) of
        None \<Rightarrow> None
      | Some data \<Rightarrow> Some \<lparr>dt_id = t_id data, dt_name = t_name data, dt_createdAt = t_created_at data\<rparr>)"

text \<open>
  \<^verbatim>\<open>DataTable.delete\<close>: the foreign keys of \<^verbatim>\<open>init\<close> are declared \<^verbatim>\<open>ON DELETE CASCADE\<close>, and the
  driver enforces foreign keys on every connection it opens. Deleting the table's row
  deletes the columns and rows that reference it, and with each of them the cells that
  reference it.
\<close>

definition DataTable_delete :: "store \<Rightarrow> DataTable \<Rightarrow> store" where
  "DataTable_delete db this =
     (if dt_id this \<in> t_id ` set (db_tables db) then
        let dead_columns = map c_id (filter (\<lambda>c. c_table_id c = dt_id this) (db_columns db));
            dead_rows = map r_id (filter (\<lambda>r. r_table_id r = dt_id this) (db_rows db))
        in db\<lparr>db_tables := filter (\<lambda>t. t_id t \<noteq> dt_id this) (db_tables db),
              db_columns := filter (\<lambda>c. c_table_id c \<noteq> dt_id this) (db_columns db),
              db_rows := filter (\<lambda>r. r_table_id r \<noteq> dt_id this) (db_rows db),
              db_cells := filter (\<lambda>x. x_row_id x \<notin> set dead_rows \<and> x_column_id x \<notin> set dead_columns)
                            (db_cells db)\<rparr>
      else db)"

section \<open>TableColumn\<close>

record TableColumn =
  tc_id :: nat
  tc_tableId :: nat
  tc_name :: string
  tc_type :: string
  tc_options :: jsval
  tc_createdAt :: nat

text \<open>The default parameter \<^verbatim>\<open>options = {}\<close> replaces an \<^verbatim>\<open>undefined\<close> argument.\<close>

definition TableColumn_create ::
  "store \<Rightarrow> nat \<Rightarrow> string \<Rightarrow> string \<Rightarrow> jsval \<Rightarrow> nat \<Rightarrow> error + store \<times> TableColumn" where
  "TableColumn_create db tableId name type options0 now =
     (let options = (if options0 = JUndefined then JObj [] else options0);
          createdAt = now;
          optionsJson = JSON_stringify options
      in if tableId \<notin> t_id ` set (db_tables db) then Inl SQLITE_CONSTRAINT_FOREIGNKEY
         else
           let lastInsertRowid = next_id (seq_columns db) (map c_id (db_columns db))
           in Inr (db\<lparr>db_columns := db_columns db @
                        [\<lparr>c_id = lastInsertRowid, c_table_id = tableId, c_name = name, c_type = type,
                          c_options = optionsJson, c_created_at = createdAt\<rparr>],
                      seq_columns := lastInsertRowid\<rparr>,
                   \<lparr>tc_id = lastInsertRowid, tc_tableId = tableId, tc_name = name, tc_type = type,
                    tc_options = options, tc_createdAt = createdAt\<rparr>))"

definition column_of :: "columns_row \<Rightarrow> TableColumn" where
  "column_of c =
     \<lparr>tc_id = c_id c, tc_tableId = c_table_id c, tc_name = c_name c, tc_type = c_type c,
      tc_options = (case c_options c of None \<Rightarrow> JObj [] | Some j \<Rightarrow> JSON_parse j),
      tc_createdAt = c_created_at c\<rparr>"

definition TableColumn_getByTable :: "access_path \<Rightarrow> store \<Rightarrow> nat \<Rightarrow> TableColumn list" where
  "TableColumn_getByTable path db tableId =
     map column_of (where_table_id path c_id c_table_id tableId (db_columns db))"

definition TableColumn_get :: "store \<Rightarrow> nat \<Rightarrow> TableColumn option" where
  "TableColumn_get db i =
     (case find (\<lambda>c. c_id c = i) (db_columns db) of
        None \<Rightarrow> None
      | Some data \<Rightarrow> Some (column_of data))"

section \<open>TableRow\<close>

record TableRow =
  tr_id :: nat
  tr_tableId :: nat
  tr_position :: int
  tr_createdAt :: nat

text \<open>
  \<^verbatim>\<open>TableRow.create\<close>: \<open>None\<close> is the omitted (or \<^verbatim>\<open>null\<close>) position. An explicit position is
  an integer that a number holds exactly; a BigInt position is not modelled.
\<close>

definition TableRow_create :: "store \<Rightarrow> nat \<Rightarrow> int option \<Rightarrow> nat \<Rightarrow> error + store \<times> TableRow" where
  "TableRow_create db tableId position0 now =
     (let position = (case position0 of
                        None \<Rightarrow> int (length (filter (\<lambda>r. r_table_id r = tableId) (db_rows db)))
                      | Some p \<Rightarrow> p);
          createdAt = now
      in if tableId \<notin> t_id ` set (db_tables db) then Inl SQLITE_CONSTRAINT_FOREIGNKEY
         else
           let lastInsertRowid = next_id (seq_rows db) (map r_id (db_rows db))
           in Inr (db\<lparr>db_rows := db_rows db @
                        [\<lparr>r_id = lastInsertRowid, r_table_id = tableId, r_position = position,
                          r_created_at = createdAt\<rparr>],
                      seq_rows := lastInsertRowid\<rparr>,
                   \<lparr>tr_id = lastInsertRowid, tr_tableId = tableId, tr_position = position,
                    tr_createdAt = createdAt\<rparr>))"

definition row_of :: "rows_row \<Rightarrow> TableRow" where
  "row_of r = \<lparr>tr_id = r_id r, tr_tableId = r_table_id r, tr_position = r_position r,
               tr_createdAt = r_created_at r\<rparr>"

text \<open>
  \<^verbatim>\<open>ORDER BY position\<close> sorts what the access path delivers; rows of equal position stay
  in the order of delivery. Positions are integers a number holds exactly.
\<close>

definition TableRow_getByTable :: "access_path \<Rightarrow> store \<Rightarrow> nat \<Rightarrow> TableRow list" where
  "TableRow_getByTable path db tableId =
     map row_of (sort_key r_position (where_table_id path r_id r_table_id tableId (db_rows db)))"

definition TableRow_get :: "store \<Rightarrow> nat \<Rightarrow> TableRow option" where
  "TableRow_get db i =
     (case find (\<lambda>r. r_id r = i) (db_rows db) of
        None \<Rightarrow> None
      | Some data \<Rightarrow> Some (row_of data))"

section \<open>CellData\<close>

record CellData =
  cd_id :: nat
  cd_rowId :: nat
  cd_columnId :: nat
  cd_value :: jsval
  cd_updatedAt :: nat

definition cell_of :: "cells_row \<Rightarrow> CellData" where
  "cell_of data =
     \<lparr>cd_id = x_id data, cd_rowId = x_row_id data, cd_columnId = x_column_id data,
      cd_value = (case x_value data of None \<Rightarrow> JNull | Some j \<Rightarrow> JSON_parse j),
      cd_updatedAt = x_updated_at data\<rparr>"

definition CellData_get :: "store \<Rightarrow> nat \<Rightarrow> nat \<Rightarrow> CellData option" where
  "CellData_get db rowId columnId =
     (case find (\<lambda>x. x_row_id x = rowId \<and> x_column_id x = columnId) (db_cells db) of
        None \<Rightarrow> None
      | Some data \<Rightarrow> Some (cell_of data))"

text \<open>
  The statement of \<^verbatim>\<open>CellData.set\<close>: \<^verbatim>\<open>INSERT ... ON CONFLICT(row_id, column_id) DO UPDATE\<close>.
  A row that collides on the unique pair is updated in place and keeps its id; otherwise
  the new row is inserted, which the foreign keys allow only when the row and the column
  exist. The statement draws its id before it looks for the conflict, so the counter
  advances on both paths.
\<close>

definition upsert_cell :: "store \<Rightarrow> nat \<Rightarrow> nat \<Rightarrow> json option \<Rightarrow> nat \<Rightarrow> error + store" where
  "upsert_cell db rowId columnId valueStr updatedAt =
     (let new_id = next_id (seq_cells db) (map x_id (db_cells db))
      in if \<exists>x \<in> set (db_cells db). x_row_id x = rowId \<and> x_column_id x = columnId then
           Inr (db\<lparr>db_cells := map (\<lambda>x. if x_row_id x = rowId \<and> x_column_id x = columnId
                                        then x\<lparr>x_value := valueStr, x_updated_at := updatedAt\<rparr>
                                        else x) (db_cells db),
                   seq_cells := new_id\<rparr>)
         else if rowId \<notin> r_id ` set (db_rows db) \<or> columnId \<notin> c_id ` set (db_columns db) then
           Inl SQLITE_CONSTRAINT_FOREIGNKEY
         else
           Inr (db\<lparr>db_cells := db_cells db @
                     [\<lparr>x_id = new_id, x_row_id = rowId, x_column_id = columnId, x_value = valueStr,
                       x_updated_at = updatedAt\<rparr>],
                   seq_cells := new_id\<rparr>))"

text \<open>
  \<^verbatim>\<open>CellData.set\<close>: \<open>None\<close> for \<open>valueStr\<close> is SQL NULL. Reading the cell back cannot
  miss after the statement has succeeded; \<^verbatim>\<open>data.id\<close> on a missing row would be the TypeError.
\<close>

definition CellData_set :: "store \<Rightarrow> nat \<Rightarrow> nat \<Rightarrow> jsval \<Rightarrow> nat \<Rightarrow> error + store \<times> CellData" where
  "CellData_set db rowId columnId val now =
     (let updatedAt = now;
          valueStr = (if val \<noteq> JNull \<and> val \<noteq> JUndefined then JSON_stringify val else None)
      in case upsert_cell db rowId columnId valueStr updatedAt of
           Inl e \<Rightarrow> Inl e
         | Inr db' \<Rightarrow>
             (case find (\<lambda>x. x_row_id x = rowId \<and> x_column_id x = columnId) (db_cells db') of
                None \<Rightarrow> Inl TypeError
              | Some data \<Rightarrow> Inr (db', cell_of data)))"

definition TableRow_setCell :: "store \<Rightarrow> TableRow \<Rightarrow> nat \<Rightarrow> jsval \<Rightarrow> nat \<Rightarrow> error + store \<times> CellData" where
  "TableRow_setCell db this columnId val now = CellData_set db (tr_id this) columnId val now"

definition TableRow_getCell :: "store \<Rightarrow> TableRow \<Rightarrow> nat \<Rightarrow> CellData option" where
  "TableRow_getCell db this columnId = CellData_get db (tr_id this) columnId"

section \<open>The methods of DataTable that delegate\<close>

definition DataTable_addColumn ::
  "store \<Rightarrow> DataTable \<Rightarrow> string \<Rightarrow> string \<Rightarrow> jsval \<Rightarrow> nat \<Rightarrow> error + store \<times> TableColumn" where
  "DataTable_addColumn db this name type options now =
     TableColumn_create db (dt_id this) name type options now"

definition DataTable_getColumns :: "access_path \<Rightarrow> store \<Rightarrow> DataTable \<Rightarrow> TableColumn list" where
  "DataTable_getColumns path db this = TableColumn_getByTable path db (dt_id this)"

definition DataTable_addRow :: "store \<Rightarrow> DataTable \<Rightarrow> int option \<Rightarrow> nat \<Rightarrow> error + store \<times> TableRow" where
  "DataTable_addRow db this position now = TableRow_create db (dt_id this) position now"

definition DataTable_getRows :: "access_path \<Rightarrow> store \<Rightarrow> DataTable \<Rightarrow> TableRow list" where
  "DataTable_getRows path db this = TableRow_getByTable path db (dt_id this)"

text \<open>
  The record that \<^verbatim>\<open>getData\<close> builds is an object: its own properties in enumeration order
  and its prototype, which is \<^verbatim>\<open>Object.prototype\<close> for the literal
  \<^verbatim>\<open>{ _rowId: row.id, _position: row.position }\<close>.
\<close>

datatype prototype = Object_prototype | Null_prototype | Value_prototype jsval

record js_object =
  obj_own :: "(string \<times> jsval) list"
  obj_proto :: prototype

text \<open>
  Does an assignment to the name \<^verbatim>\<open>__proto__\<close> find the accessor of \<^verbatim>\<open>Object.prototype\<close> on the
  prototype chain? Not below a null prototype, and not below a parsed object that has an
  own property of that name (\<^verbatim>\<open>JSON.parse\<close> creates it as a data property).
\<close>

fun has_proto_setter :: "prototype \<Rightarrow> bool" where
  "has_proto_setter Object_prototype = True"
| "has_proto_setter Null_prototype = False"
| "has_proto_setter (Value_prototype (JObj kvs)) = (''__proto__'' \<notin> fst ` set kvs)"
| "has_proto_setter (Value_prototype v) = True"

text \<open>
  \<^verbatim>\<open>rowData[name] = v\<close>. Every inherited property of the chain is a writable data property
  except \<^verbatim>\<open>__proto__\<close>, so for every other name the assignment writes an own property. For
  \<^verbatim>\<open>__proto__\<close> the setter runs when the record has no own property of that name and the
  chain reaches the accessor: it makes an object, an array or null the prototype of the
  record and ignores every other value; no own property is created.
\<close>

definition assign :: "js_object \<Rightarrow> string \<Rightarrow> jsval \<Rightarrow> js_object" where
  "assign obj k v =
     (if k = ''__proto__'' \<and> k \<notin> fst ` set (obj_own obj) \<and> has_proto_setter (obj_proto obj) then
        (case v of
           JNull \<Rightarrow> obj\<lparr>obj_proto := Null_prototype\<rparr>
         | JArr xs \<Rightarrow> obj\<lparr>obj_proto := Value_prototype v\<rparr>
         | JObj kvs \<Rightarrow> obj\<lparr>obj_proto := Value_prototype v\<rparr>
         | _ \<Rightarrow> obj)
      else obj\<lparr>obj_own := put_property k v (obj_own obj)\<rparr>)"

text \<open>
  \<^verbatim>\<open>DataTable.getData\<close>: the value written for a pair of row and column is the cell's value,
  or null when the pair has no cell.
\<close>

definition projected :: "store \<Rightarrow> TableRow \<Rightarrow> TableColumn \<Rightarrow> jsval" where
  "projected db row col =
     (case CellData_get db (tr_id row) (tc_id col) of Some cell \<Rightarrow> cd_value cell | None \<Rightarrow> JNull)"

definition rowData_of :: "store \<Rightarrow> TableColumn list \<Rightarrow> TableRow \<Rightarrow> js_object" where
  "rowData_of db columns row =
     fold (\<lambda>col rowData. assign rowData (tc_name col) (projected db row col)) columns
       \<lparr>obj_own = [(''_rowId'', JNum (of_nat (tr_id row))),
                   (''_position'', JNum (of_int (tr_position row)))],
        obj_proto = Object_prototype\<rparr>"

definition DataTable_getData :: "access_path \<Rightarrow> store \<Rightarrow> DataTable \<Rightarrow> js_object list" where
  "DataTable_getData path db this =
     (let columns = DataTable_getColumns path db this;
          rows = DataTable_getRows path db this
      in map (rowData_of db columns) rows)"

section \<open>Reachable stores\<close>

inductive reachable :: "store \<Rightarrow> bool" where
  opened: "reachable (DiamantDB_init None)"
| reopened: "reachable db \<Longrightarrow> reachable (DiamantDB_init (Some db))"
| table_created: "reachable db \<Longrightarrow> DataTable_create db name now = (db', t) \<Longrightarrow> reachable db'"
| table_deleted: "reachable db \<Longrightarrow> reachable (DataTable_delete db this)"
| column_created:
    "reachable db \<Longrightarrow> TableColumn_create db tableId name type options now = Inr (db', c) \<Longrightarrow> reachable db'"
| row_created:
    "reachable db \<Longrightarrow> TableRow_create db tableId position now = Inr (db', r) \<Longrightarrow> reachable db'"
| cell_set:
    "reachable db \<Longrightarrow> CellData_set db rowId columnId val now = Inr (db', cell) \<Longrightarrow> reachable db'"

section \<open>Notions used in the statements\<close>

text \<open>The pair that the constraint \<^verbatim>\<open>UNIQUE(row_id, column_id)\<close> speaks of.\<close>

definition cell_key :: "cells_row \<Rightarrow> nat \<times> nat" where
  "cell_key x = (x_row_id x, x_column_id x)"

text \<open>
  What the declarations of \<^verbatim>\<open>init\<close> promise for a store: ids ascend in insertion order
  (primary keys, AUTOINCREMENT) and no pair of row and column has two cells.
\<close>

definition schema_ok :: "store \<Rightarrow> bool" where
  "schema_ok db \<longleftrightarrow>
     sorted_wrt (<) (map t_id (db_tables db)) \<and>
     sorted_wrt (<) (map c_id (db_columns db)) \<and>
     sorted_wrt (<) (map r_id (db_rows db)) \<and>
     distinct (map cell_key (db_cells db))"

text \<open>
  The columns of a table in the order they were created: \<^verbatim>\<open>TableColumn.create\<close> appends to
  \<open>db_columns\<close>, so this is the order of that list.
\<close>

definition columns_in_creation_order :: "store \<Rightarrow> DataTable \<Rightarrow> TableColumn list" where
  "columns_in_creation_order db this =
     map column_of (filter (\<lambda>c. c_table_id c = dt_id this) (db_columns db))"

text \<open>The two metadata properties with which \<^verbatim>\<open>getData\<close> starts a record.\<close>

definition metadata :: "TableRow \<Rightarrow> (string \<times> jsval) list" where
  "metadata row =
     [(''_rowId'', JNum (of_nat (tr_id row))), (''_position'', JNum (of_int (tr_position row)))]"

text \<open>
  The store after an operation: the new store when it succeeded, the old one when it
  failed (a failed statement changes nothing).
\<close>

definition after :: "store \<Rightarrow> error + store \<times> 'a \<Rightarrow> store" where
  "after db r = (case r of Inl e \<Rightarrow> db | Inr (db', x) \<Rightarrow> db')"

section \<open>Sessions\<close>

text \<open>A session is a list of calls made one after the other on the same store.\<close>

datatype call =
    CreateTable string nat
  | DeleteTable DataTable
  | AddColumn DataTable string string jsval nat
  | AddRow DataTable "int option" nat
  | SetCell TableRow nat jsval nat

fun perform :: "store \<Rightarrow> call \<Rightarrow> store" where
  "perform db (CreateTable name now) = fst (DataTable_create db name now)"
| "perform db (DeleteTable this) = DataTable_delete db this"
| "perform db (AddColumn this name type options now) =
     after db (DataTable_addColumn db this name type options now)"
| "perform db (AddRow this position now) = after db (DataTable_addRow db this position now)"
| "perform db (SetCell row columnId val now) = after db (TableRow_setCell db row columnId val now)"

definition session :: "call list \<Rightarrow> store" where
  "session calls = foldl perform (DiamantDB_init None) calls"

definition users :: DataTable where
  "users = \<lparr>dt_id = 1, dt_name = ''Users'', dt_createdAt = 1\<rparr>"

definition projects :: DataTable where
  "projects = \<lparr>dt_id = 2, dt_name = ''Projects'', dt_createdAt = 8\<rparr>"

definition alice :: TableRow where
  "alice = \<lparr>tr_id = 1, tr_tableId = 1, tr_position = 0, tr_createdAt = 4\<rparr>"

definition bob :: TableRow where
  "bob = \<lparr>tr_id = 2, tr_tableId = 1, tr_position = 1, tr_createdAt = 5\<rparr>"

definition website :: TableRow where
  "website = \<lparr>tr_id = 3, tr_tableId = 2, tr_position = 0, tr_createdAt = 10\<rparr>"

text \<open>
  Users with the columns Name (1) and Age (2) and the rows of Alice and Bob; Alice's age
  is set twice. Projects with the column Title (3) and one row.
\<close>

definition demo_store :: store where
  "demo_store = session
     [CreateTable ''Users'' 1,
      AddColumn users ''Name'' ''text'' JUndefined 2,
      AddColumn users ''Age'' ''number'' JUndefined 3,
      AddRow users None 4,
      AddRow users None 5,
      SetCell alice 1 (JStr ''Alice'') 6,
      SetCell alice 2 (JNum 30) 7,
      SetCell alice 2 (JNum 31) 7,
      CreateTable ''Projects'' 8,
      AddColumn projects ''Title'' ''text'' JUndefined 9,
      AddRow projects None 10,
      SetCell website 3 (JStr ''Web'') 11]"

text \<open>
  A table whose first column is named like a metadata property and whose other two
  columns share a name.
\<close>

definition sheet :: DataTable where
  "sheet = \<lparr>dt_id = 1, dt_name = ''Sheet'', dt_createdAt = 1\<rparr>"

definition line :: TableRow where
  "line = \<lparr>tr_id = 1, tr_tableId = 1, tr_position = 0, tr_createdAt = 5\<rparr>"

definition clash_store :: store where
  "clash_store = session
     [CreateTable ''Sheet'' 1,
      AddColumn sheet ''_rowId'' ''text'' JUndefined 2,
      AddColumn sheet ''Name'' ''text'' JUndefined 3,
      AddColumn sheet ''Name'' ''text'' JUndefined 4,
      AddRow sheet None 5,
      SetCell line 2 (JStr ''first'') 6,
      SetCell line 3 (JStr ''second'') 7]"



text \<open>The elements of a list, each at its first occurrence.\<close>

definition first_occurrences :: "'a list \<Rightarrow> 'a list" where
  "first_occurrences xs = rev (remdups (rev xs))"

text \<open>Two rows added at the positions 7 and 3, in this order; only Bob's name is set.\<close>

definition ordered_store :: store where
  "ordered_store = session
     [CreateTable ''Users'' 1,
      AddColumn users ''Name'' ''text'' JUndefined 2,
      AddColumn users ''Age'' ''number'' JUndefined 3,
      AddRow users (Some 7) 4,
      AddRow users (Some 3) 5,
      SetCell bob 1 (JStr ''Bob'') 6]"

text \<open>The text \<^verbatim>\<open>CellData.set\<close> binds for a value, and what a read makes of that text.\<close>

definition valueStr_of :: "jsval \<Rightarrow> json option" where
  "valueStr_of val = (if val \<noteq> JNull \<and> val \<noteq> JUndefined then JSON_stringify val else None)"

definition read_back :: "jsval \<Rightarrow> jsval" where
  "read_back val = (case valueStr_of val of None \<Rightarrow> JNull | Some j \<Rightarrow> JSON_parse j)"

text \<open>The values that are neither an object nor null: the \<^verbatim>\<open>__proto__\<close> setter ignores them.\<close>

fun primitive :: "jsval \<Rightarrow> bool" where
  "primitive JNull = False"
| "primitive (JArr xs) = False"
| "primitive (JObj kvs) = False"
| "primitive v = True"

text \<open>A table with two columns named \<^verbatim>\<open>__proto__\<close> and a column Name, all cells set.\<close>

definition proto_store :: store where
  "proto_store = session
     [CreateTable ''Sheet'' 1,
      AddColumn sheet ''__proto__'' ''text'' JUndefined 2,
      AddColumn sheet ''__proto__'' ''text'' JUndefined 3,
      AddColumn sheet ''Name'' ''text'' JUndefined 4,
      AddRow sheet None 5,
      SetCell line 1 (JStr ''a'') 6,
      SetCell line 2 (JStr ''b'') 7,
      SetCell line 3 (JStr ''n'') 8]"


text \<open>A table with a column whose name is an array index.\<close>

definition index_store :: store where
  "index_store = session
     [CreateTable ''Sheet'' 1,
      AddColumn sheet ''Name'' ''text'' JUndefined 2,
      AddColumn sheet ''7'' ''text'' JUndefined 3,
      AddRow sheet None 5,
      SetCell line 1 (JStr ''n'') 6,
      SetCell line 2 (JStr ''seven'') 7]"

section \<open>The constraints of the schema hold in every reachable store\<close>

lemma fold_max_ge: "s \<le> fold max ids (s::nat)"
proof (induction ids arbitrary: s)
  case Nil
  show ?case by simp
next
  case (Cons a ids)
  have "s \<le> max a s" by simp
  also have "max a s \<le> fold max ids (max a s)" by (rule Cons.IH)
  finally show ?case by simp
qed

lemma fold_max_upper: "i \<in> set ids \<Longrightarrow> i \<le> fold max ids (s::nat)"
proof (induction ids arbitrary: s)
  case Nil
  then show ?case by simp
next
  case (Cons a ids)
  show ?case
  proof (cases "i = a")
    case True
    have "a \<le> max a s" by simp
    also have "max a s \<le> fold max ids (max a s)" by (rule fold_max_ge)
    finally show ?thesis using True by simp
  next
    case False
    with Cons.prems have "i \<in> set ids" by simp
    then show ?thesis using Cons.IH by simp
  qed
qed

lemma next_id_greater: "i \<in> set ids \<Longrightarrow> i < next_id seq ids"
  using fold_max_upper[of i ids seq] by (simp add: next_id_def)

lemma sorted_ids_append:
  "sorted_wrt (<) (map f xs) \<Longrightarrow> sorted_wrt (<) (map f xs @ [next_id seq (map f xs)])"
  by (auto simp: sorted_wrt_append intro: next_id_greater)

lemma sorted_ids_filter: "sorted_wrt (<) (map f xs) \<Longrightarrow> sorted_wrt (<) (map f (filter P xs))"
  by (simp add: sorted_wrt_map sorted_wrt_filter)

lemma schema_ok_empty: "schema_ok empty_store"
  by (simp add: schema_ok_def empty_store_def)

lemma schema_ok_DataTable_create:
  "schema_ok db \<Longrightarrow> DataTable_create db name now = (db', t) \<Longrightarrow> schema_ok db'"
  unfolding schema_ok_def DataTable_create_def Let_def
  using sorted_ids_append[of t_id "db_tables db"] by auto

lemma schema_ok_TableColumn_create:
  "schema_ok db \<Longrightarrow> TableColumn_create db tableId name type options now = Inr (db', c) \<Longrightarrow> schema_ok db'"
  unfolding schema_ok_def TableColumn_create_def Let_def
  using sorted_ids_append[of c_id "db_columns db"] by (auto split: if_splits)

lemma schema_ok_TableRow_create:
  "schema_ok db \<Longrightarrow> TableRow_create db tableId position now = Inr (db', r) \<Longrightarrow> schema_ok db'"
  unfolding schema_ok_def TableRow_create_def Let_def
  using sorted_ids_append[of r_id "db_rows db"] by (auto split: if_splits)

lemma schema_ok_DataTable_delete: "schema_ok db \<Longrightarrow> schema_ok (DataTable_delete db this)"
  unfolding schema_ok_def DataTable_delete_def Let_def
  by (auto simp: sorted_ids_filter distinct_map_filter)

lemma cell_key_update:
  "map cell_key (map (\<lambda>x. if P x then x\<lparr>x_value := v, x_updated_at := u\<rparr> else x) xs) = map cell_key xs"
  by (induction xs) (simp_all add: cell_key_def)

lemma upsert_cell_cases:
  assumes "upsert_cell db rowId columnId v u = Inr db'"
  shows "(db_cells db' = map (\<lambda>x. if x_row_id x = rowId \<and> x_column_id x = columnId
                                then x\<lparr>x_value := v, x_updated_at := u\<rparr> else x) (db_cells db)
          \<and> (rowId, columnId) \<in> cell_key ` set (db_cells db))
       \<or> (db_cells db' = db_cells db @
              [\<lparr>x_id = next_id (seq_cells db) (map x_id (db_cells db)), x_row_id = rowId,
                x_column_id = columnId, x_value = v, x_updated_at = u\<rparr>]
          \<and> (rowId, columnId) \<notin> cell_key ` set (db_cells db)
          \<and> rowId \<in> r_id ` set (db_rows db) \<and> columnId \<in> c_id ` set (db_columns db))"
    and "db_tables db' = db_tables db" and "db_columns db' = db_columns db" and "db_rows db' = db_rows db"
proof -
  let ?hit = "\<exists>x \<in> set (db_cells db). x_row_id x = rowId \<and> x_column_id x = columnId"
  have key: "?hit \<longleftrightarrow> (rowId, columnId) \<in> cell_key ` set (db_cells db)"
    by (auto simp: cell_key_def)
  show "(db_cells db' = map (\<lambda>x. if x_row_id x = rowId \<and> x_column_id x = columnId
                                then x\<lparr>x_value := v, x_updated_at := u\<rparr> else x) (db_cells db)
          \<and> (rowId, columnId) \<in> cell_key ` set (db_cells db))
       \<or> (db_cells db' = db_cells db @
              [\<lparr>x_id = next_id (seq_cells db) (map x_id (db_cells db)), x_row_id = rowId,
                x_column_id = columnId, x_value = v, x_updated_at = u\<rparr>]
          \<and> (rowId, columnId) \<notin> cell_key ` set (db_cells db)
          \<and> rowId \<in> r_id ` set (db_rows db) \<and> columnId \<in> c_id ` set (db_columns db))"
  proof (cases ?hit)
    case True
    with assms have "db_cells db' = map (\<lambda>x. if x_row_id x = rowId \<and> x_column_id x = columnId
                                then x\<lparr>x_value := v, x_updated_at := u\<rparr> else x) (db_cells db)"
      by (auto simp: upsert_cell_def Let_def)
    with True key show ?thesis by blast
  next
    case False
    with assms have "db_cells db' = db_cells db @
              [\<lparr>x_id = next_id (seq_cells db) (map x_id (db_cells db)), x_row_id = rowId,
                x_column_id = columnId, x_value = v, x_updated_at = u\<rparr>]
          \<and> rowId \<in> r_id ` set (db_rows db) \<and> columnId \<in> c_id ` set (db_columns db)"
      by (auto simp: upsert_cell_def Let_def split: if_splits)
    with False key show ?thesis by blast
  qed
  show "db_tables db' = db_tables db" "db_columns db' = db_columns db" "db_rows db' = db_rows db"
    using assms by (auto simp: upsert_cell_def Let_def split: if_splits)
qed

lemma schema_ok_upsert_cell:
  assumes "schema_ok db" and "upsert_cell db rowId columnId v u = Inr db'"
  shows "schema_ok db'"
proof -
  have "distinct (map cell_key (db_cells db'))"
    using upsert_cell_cases(1)[OF assms(2)] assms(1)
    by (auto simp only: schema_ok_def cell_key_update map_append distinct_append list.map
          distinct.simps set_map cell_key_def cells_row.simps list.set)
  then show ?thesis
    using assms(1) upsert_cell_cases(2-4)[OF assms(2)] by (simp add: schema_ok_def)
qed

lemma schema_ok_CellData_set:
  "schema_ok db \<Longrightarrow> CellData_set db rowId columnId val now = Inr (db', cell) \<Longrightarrow> schema_ok db'"
  unfolding CellData_set_def Let_def
  by (auto split: sum.splits option.splits dest: schema_ok_upsert_cell)

lemma reachable_schema_ok: "reachable db \<Longrightarrow> schema_ok db"
proof (induction rule: reachable.induct)
  case opened
  show ?case by (simp add: schema_ok_empty)
next
  case (reopened db)
  then show ?case by simp
next
  case (table_created db name now db' t)
  then show ?case by (blast intro: schema_ok_DataTable_create)
next
  case (table_deleted db this)
  then show ?case by (simp add: schema_ok_DataTable_delete)
next
  case (column_created db tableId name type options now db' c)
  then show ?case by (blast intro: schema_ok_TableColumn_create)
next
  case (row_created db tableId position now db' r)
  then show ?case by (blast intro: schema_ok_TableRow_create)
next
  case (cell_set db rowId columnId val now db' cell)
  then show ?case by (blast intro: schema_ok_CellData_set)
qed


lemmas op_defs = DataTable_create_def TableColumn_create_def TableRow_create_def CellData_set_def
  upsert_cell_def DataTable_addColumn_def DataTable_addRow_def TableRow_setCell_def after_def
  next_id_def empty_store_def Let_def session_def DataTable_delete_def

lemma demo_store_eq:
  "demo_store =
     \<lparr>db_tables =
        [\<lparr>t_id = 1, t_name = ''Users'', t_created_at = 1\<rparr>,
         \<lparr>t_id = 2, t_name = ''Projects'', t_created_at = 8\<rparr>],
      db_columns =
        [\<lparr>c_id = 1, c_table_id = 1, c_name = ''Name'', c_type = ''text'',
          c_options = Some (TObj []), c_created_at = 2\<rparr>,
         \<lparr>c_id = 2, c_table_id = 1, c_name = ''Age'', c_type = ''number'',
          c_options = Some (TObj []), c_created_at = 3\<rparr>,
         \<lparr>c_id = 3, c_table_id = 2, c_name = ''Title'', c_type = ''text'',
          c_options = Some (TObj []), c_created_at = 9\<rparr>],
      db_rows =
        [\<lparr>r_id = 1, r_table_id = 1, r_position = 0, r_created_at = 4\<rparr>,
         \<lparr>r_id = 2, r_table_id = 1, r_position = 1, r_created_at = 5\<rparr>,
         \<lparr>r_id = 3, r_table_id = 2, r_position = 0, r_created_at = 10\<rparr>],
      db_cells =
        [\<lparr>x_id = 1, x_row_id = 1, x_column_id = 1, x_value = Some (TStr ''Alice''),
          x_updated_at = 6\<rparr>,
         \<lparr>x_id = 2, x_row_id = 1, x_column_id = 2, x_value = Some (TNum 31),
          x_updated_at = 7\<rparr>,
         \<lparr>x_id = 4, x_row_id = 3, x_column_id = 3, x_value = Some (TStr ''Web''),
          x_updated_at = 11\<rparr>],
      seq_tables = 2, seq_columns = 3, seq_rows = 3, seq_cells = 4\<rparr>"
  by (simp add: demo_store_def op_defs users_def projects_def alice_def website_def List.map_filter_def)

lemma reachable_perform: "reachable db \<Longrightarrow> reachable (perform db c)"
proof (cases c)
  case (CreateTable name now)
  assume "reachable db"
  then show ?thesis using CreateTable by (metis perform.simps(1) reachable.table_created prod.collapse)
next
  case (DeleteTable this)
  assume "reachable db"
  then show ?thesis using DeleteTable by (simp add: reachable.table_deleted)
next
  case (AddColumn this name type options now)
  assume "reachable db"
  then show ?thesis using AddColumn
    by (auto simp: after_def DataTable_addColumn_def split: sum.splits intro: reachable.column_created)
next
  case (AddRow this position now)
  assume "reachable db"
  then show ?thesis using AddRow
    by (auto simp: after_def DataTable_addRow_def split: sum.splits intro: reachable.row_created)
next
  case (SetCell row columnId val now)
  assume "reachable db"
  then show ?thesis using SetCell
    by (auto simp: after_def TableRow_setCell_def split: sum.splits intro: reachable.cell_set)
qed

lemma reachable_foldl: "reachable db \<Longrightarrow> reachable (foldl perform db calls)"
  by (induction calls arbitrary: db) (simp_all add: reachable_perform)

lemma reachable_session: "reachable (session calls)"
  unfolding session_def by (rule reachable_foldl) (rule reachable.opened)


lemma find_key_None: "find (\<lambda>x. f x = i) xs = None \<longleftrightarrow> i \<notin> f ` set xs"
  by (auto simp: find_None_iff)

lemma DataTable_get_None: "DataTable_get db i = None \<longleftrightarrow> i \<notin> t_id ` set (db_tables db)"
  by (simp add: DataTable_get_def find_key_None[symmetric] split: option.splits)

lemma TableColumn_get_None: "TableColumn_get db i = None \<longleftrightarrow> i \<notin> c_id ` set (db_columns db)"
  by (simp add: TableColumn_get_def find_key_None[symmetric] split: option.splits)

lemma TableRow_get_None: "TableRow_get db i = None \<longleftrightarrow> i \<notin> r_id ` set (db_rows db)"
  by (simp add: TableRow_get_def find_key_None[symmetric] split: option.splits)

lemma find_cell_None:
  "find (\<lambda>x. x_row_id x = rowId \<and> x_column_id x = columnId) cells = None \<longleftrightarrow>
     (rowId, columnId) \<notin> cell_key ` set cells"
  by (auto simp: find_None_iff cell_key_def)

lemma CellData_get_None:
  "CellData_get db rowId columnId = None \<longleftrightarrow> (rowId, columnId) \<notin> cell_key ` set (db_cells db)"
  by (cases "find (\<lambda>x. x_row_id x = rowId \<and> x_column_id x = columnId) (db_cells db)")
     (simp_all add: CellData_get_def find_cell_None[symmetric])

lemma distinct_key_count: "distinct (map f xs) \<Longrightarrow> length (filter (\<lambda>x. f x = k) xs) \<le> 1"
proof (induction xs)
  case Nil
  then show ?case by simp
next
  case (Cons a xs)
  show ?case
  proof (cases "f a = k")
    case True
    with Cons.prems have "k \<notin> f ` set xs" by auto
    then have "filter (\<lambda>x. f x = k) xs = []" by (auto simp: filter_empty_conv)
    with True show ?thesis by simp
  next
    case False
    with Cons show ?thesis by simp
  qed
qed

section \<open>Claims\<close>

text \<open>
  C9. A get for an id that no entity has returns the not-found result: \<open>None\<close>, which no
  found entity equals. The four gets have no failing branch, and they return \<open>None\<close> for
  exactly the ids (for a cell: the pairs) that are not bound in the store.
\<close>

theorem get_missing_is_not_found:
  "(DataTable_get db ti = None \<longleftrightarrow> ti \<notin> t_id ` set (db_tables db)) \<and>
   (TableColumn_get db ci = None \<longleftrightarrow> ci \<notin> c_id ` set (db_columns db)) \<and>
   (TableRow_get db ri = None \<longleftrightarrow> ri \<notin> r_id ` set (db_rows db)) \<and>
   (CellData_get db rowId columnId = None \<longleftrightarrow>
      (rowId, columnId) \<notin> (\<lambda>x. (x_row_id x, x_column_id x)) ` set (db_cells db))"
proof (intro conjI)
  show "CellData_get db rowId columnId = None \<longleftrightarrow>
      (rowId, columnId) \<notin> (\<lambda>x. (x_row_id x, x_column_id x)) ` set (db_cells db)"
    using CellData_get_None[of db rowId columnId] by (simp add: cell_key_def[abs_def])
qed (rule DataTable_get_None TableColumn_get_None TableRow_get_None)+

theorem get_missing_is_not_found_witness:
  "DataTable_get demo_store 7 = None \<and> TableColumn_get demo_store 7 = None \<and>
   TableRow_get demo_store 7 = None \<and> CellData_get demo_store 2 1 = None \<and>
   DataTable_get demo_store 2 = Some projects \<and> TableRow_get demo_store 3 = Some website"
  using get_missing_is_not_found[of demo_store 7 7 7 2 1]
  by (simp add: demo_store_eq DataTable_get_def TableRow_get_def row_of_def projects_def website_def)

text \<open>
  C4. In every store the program can reach, no pair of row and column has more than one
  cell.
\<close>

theorem one_cell_per_pair:
  assumes "reachable db"
  shows "length (filter (\<lambda>x. x_row_id x = rowId \<and> x_column_id x = columnId) (db_cells db)) \<le> 1"
proof -
  have "distinct (map cell_key (db_cells db))"
    using reachable_schema_ok[OF assms] by (simp add: schema_ok_def)
  then have "length (filter (\<lambda>x. cell_key x = (rowId, columnId)) (db_cells db)) \<le> 1"
    by (rule distinct_key_count)
  then show ?thesis by (simp add: cell_key_def)
qed

theorem one_cell_per_pair_witness:
  "reachable demo_store \<and>
   length (filter (\<lambda>x. x_row_id x = 1 \<and> x_column_id x = 2) (db_cells demo_store)) \<le> 1"
  using one_cell_per_pair[of demo_store 1 2] reachable_session[of "[CreateTable ''Users'' 1,
      AddColumn users ''Name'' ''text'' JUndefined 2,
      AddColumn users ''Age'' ''number'' JUndefined 3,
      AddRow users None 4,
      AddRow users None 5,
      SetCell alice 1 (JStr ''Alice'') 6,
      SetCell alice 2 (JNum 30) 7,
      SetCell alice 2 (JNum 31) 7,
      CreateTable ''Projects'' 8,
      AddColumn projects ''Title'' ''text'' JUndefined 9,
      AddRow projects None 10,
      SetCell website 3 (JStr ''Web'') 11]"]
  by (simp only: demo_store_def[symmetric])

lemma find_append_miss: "find P xs = None \<Longrightarrow> find P (xs @ ys) = find P ys"
  by (induction xs) (auto split: if_splits)






lemma ascending_ids_inj:
  assumes "sorted_wrt (<) (map f xs)" and "x \<in> set xs" and "y \<in> set xs" and "f x = (f y :: nat)"
  shows "x = y"
proof -
  have "distinct (map f xs)" using assms(1) by (simp add: strict_sorted_iff)
  then have "inj_on f (set xs)" by (simp add: distinct_map)
  then show ?thesis using assms(2-4) by (auto dest: inj_onD)
qed

lemma DataTable_delete_existing:
  assumes "dt_id this \<in> t_id ` set (db_tables db)"
  shows "db_tables (DataTable_delete db this) = filter (\<lambda>t. t_id t \<noteq> dt_id this) (db_tables db)"
    and "db_columns (DataTable_delete db this) = filter (\<lambda>c. c_table_id c \<noteq> dt_id this) (db_columns db)"
    and "db_rows (DataTable_delete db this) = filter (\<lambda>r. r_table_id r \<noteq> dt_id this) (db_rows db)"
    and "db_cells (DataTable_delete db this) =
           filter (\<lambda>x. x_row_id x \<notin> r_id ` {r \<in> set (db_rows db). r_table_id r = dt_id this} \<and>
                       x_column_id x \<notin> c_id ` {c \<in> set (db_columns db). c_table_id c = dt_id this})
             (db_cells db)"
  using assms by (simp_all add: DataTable_delete_def Let_def)

text \<open>
  C5. After \<^verbatim>\<open>delete\<close> on an existing table of a reachable store, the get for the table's id,
  for the id of each of its columns and of each of its rows returns not found, and so does
  the get for every cell of one of those rows or columns.
\<close>

theorem delete_cascades:
  assumes "reachable db" and "dt_id this \<in> t_id ` set (db_tables db)"
  shows "DataTable_get (DataTable_delete db this) (dt_id this) = None \<and>
    (\<forall>c \<in> set (db_columns db). c_table_id c = dt_id this \<longrightarrow>
        TableColumn_get (DataTable_delete db this) (c_id c) = None \<and>
        (\<forall>rowId. CellData_get (DataTable_delete db this) rowId (c_id c) = None)) \<and>
    (\<forall>r \<in> set (db_rows db). r_table_id r = dt_id this \<longrightarrow>
        TableRow_get (DataTable_delete db this) (r_id r) = None \<and>
        (\<forall>columnId. CellData_get (DataTable_delete db this) (r_id r) columnId = None))"
proof (intro conjI ballI impI allI)
  let ?db' = "DataTable_delete db this"
  note d = DataTable_delete_existing[OF assms(2)]
  have ok: "schema_ok db" by (rule reachable_schema_ok[OF assms(1)])
  show "DataTable_get ?db' (dt_id this) = None"
    by (auto simp: DataTable_get_None d(1))
  {
    fix c assume c: "c \<in> set (db_columns db)" "c_table_id c = dt_id this"
    have "c_id c \<notin> c_id ` set (db_columns ?db')"
    proof
      assume "c_id c \<in> c_id ` set (db_columns ?db')"
      then obtain c' where c': "c' \<in> set (db_columns db)" "c_table_id c' \<noteq> dt_id this" "c_id c' = c_id c"
        by (auto simp: d(2))
      have "c' = c"
        using ascending_ids_inj[of c_id "db_columns db" c' c] ok c(1) c' by (simp add: schema_ok_def)
      with c(2) c'(2) show False by simp
    qed
    then show "TableColumn_get ?db' (c_id c) = None" by (simp add: TableColumn_get_None)
    fix rowId
    have "c_id c \<in> c_id ` {c \<in> set (db_columns db). c_table_id c = dt_id this}"
      using c by blast
    then show "CellData_get ?db' rowId (c_id c) = None"
      by (auto simp: CellData_get_None d(4) cell_key_def)
  }
  {
    fix r assume r: "r \<in> set (db_rows db)" "r_table_id r = dt_id this"
    have "r_id r \<notin> r_id ` set (db_rows ?db')"
    proof
      assume "r_id r \<in> r_id ` set (db_rows ?db')"
      then obtain r' where r': "r' \<in> set (db_rows db)" "r_table_id r' \<noteq> dt_id this" "r_id r' = r_id r"
        by (auto simp: d(3))
      have "r' = r"
        using ascending_ids_inj[of r_id "db_rows db" r' r] ok r(1) r' by (simp add: schema_ok_def)
      with r(2) r'(2) show False by simp
    qed
    then show "TableRow_get ?db' (r_id r) = None" by (simp add: TableRow_get_None)
    fix columnId
    have "r_id r \<in> r_id ` {r \<in> set (db_rows db). r_table_id r = dt_id this}"
      using r by blast
    then show "CellData_get ?db' (r_id r) columnId = None"
      by (auto simp: CellData_get_None d(4) cell_key_def)
  }
qed


theorem delete_cascades_witness:
  "reachable demo_store \<and> dt_id users \<in> t_id ` set (db_tables demo_store) \<and>
   DataTable_get demo_store 1 = Some users \<and>
   DataTable_get (DataTable_delete demo_store users) 1 = None \<and>
   map c_id (filter (\<lambda>c. c_table_id c = dt_id users) (db_columns demo_store)) = [1, 2] \<and>
   TableColumn_get (DataTable_delete demo_store users) 1 = None \<and>
   TableColumn_get (DataTable_delete demo_store users) 2 = None \<and>
   map r_id (filter (\<lambda>r. r_table_id r = dt_id users) (db_rows demo_store)) = [1, 2] \<and>
   TableRow_get (DataTable_delete demo_store users) 1 = None \<and>
   TableRow_get (DataTable_delete demo_store users) 2 = None \<and>
   CellData_get demo_store 1 1 \<noteq> None \<and>
   CellData_get (DataTable_delete demo_store users) 1 1 = None \<and>
   CellData_get (DataTable_delete demo_store users) 1 2 = None \<and>
   TableRow_get (DataTable_delete demo_store users) 3 = Some website"
proof -
  have r: "reachable demo_store"
    unfolding demo_store_def by (rule reachable_session)
  have t: "dt_id users \<in> t_id ` set (db_tables demo_store)"
    by (simp add: demo_store_eq users_def)
  show ?thesis
    using delete_cascades[OF r t] r t
    by (simp add: demo_store_eq users_def website_def DataTable_delete_def DataTable_get_def
          TableColumn_get_def TableRow_get_def CellData_get_def row_of_def)
qed

lemma sort_key_constant: "(\<And>x. x \<in> set xs \<Longrightarrow> f x = (t::nat)) \<Longrightarrow> sort_key f xs = xs"
  by (rule sort_key_id_if_sorted) (simp add: sorted_wrt_map sorted_wrt_iff_nth_less)

lemma where_table_id_ascending:
  assumes "sorted_wrt (<) (map rowid xs)"
  shows "where_table_id path rowid table_id t xs = filter (\<lambda>x. table_id x = t) xs"
proof -
  have "sorted (map rowid xs)" using assms by (simp add: strict_sorted_iff)
  then have s: "sort_key rowid xs = xs" by (rule sort_key_id_if_sorted)
  show ?thesis
  proof (cases path)
    case Table_scan
    then show ?thesis by (simp add: s)
  next
    case Index_scan
    have "filter (\<lambda>x. table_id x = t) (sort_key table_id xs) =
        sort_key table_id (filter (\<lambda>x. table_id x = t) xs)"
      by (rule filter_sort)
    also have "\<dots> = filter (\<lambda>x. table_id x = t) xs"
      by (rule sort_key_constant) simp
    finally show ?thesis using Index_scan by (simp add: s)
  qed
qed

lemma getColumns_reachable:
  assumes "reachable db"
  shows "DataTable_getColumns path db this = columns_in_creation_order db this"
proof -
  have "sorted_wrt (<) (map c_id (db_columns db))"
    using reachable_schema_ok[OF assms] by (simp add: schema_ok_def)
  then show ?thesis
    by (simp add: DataTable_getColumns_def TableColumn_getByTable_def columns_in_creation_order_def
          where_table_id_ascending)
qed



lemmas read_defs = DataTable_getData_def DataTable_getColumns_def DataTable_getRows_def
  TableColumn_getByTable_def TableRow_getByTable_def rowData_of_def projected_def CellData_get_def
  column_of_def row_of_def cell_of_def Let_def

lemmas obj_defs = assign_def put_property_def add_property_def array_index_def is_digit_def
  decimal_def


lemma first_occurrences_snoc:
  "first_occurrences (xs @ [x]) =
     (if x \<in> set xs then first_occurrences xs else first_occurrences xs @ [x])"
  by (simp add: first_occurrences_def)

lemma first_occurrences_Nil: "first_occurrences [] = []"
  by (simp add: first_occurrences_def)

lemma set_first_occurrences: "set (first_occurrences xs) = set xs"
  by (simp add: first_occurrences_def)

subsection \<open>Writing own properties\<close>

lemma insert_index_keys_set: "fst ` set (insert_index i kv ps) = insert (fst kv) (fst ` set ps)"
  by (induction ps) (auto split: option.splits)

lemma insert_index_length: "length (insert_index i kv ps) = Suc (length ps)"
  by (induction ps) (auto split: option.splits)

lemma insert_index_lookup:
  "fst kv \<notin> fst ` set ps \<Longrightarrow> map_of (insert_index i kv ps) = (map_of ps)(fst kv \<mapsto> snd kv)"
proof (induction ps)
  case Nil
  show ?case by (cases kv) simp
next
  case (Cons p ps)
  obtain k v where kv: "kv = (k, v)" by (cases kv)
  obtain k' v' where p: "p = (k', v')" by (cases p)
  from Cons.prems kv p have ne: "k \<noteq> k'" and fresh: "fst kv \<notin> fst ` set ps" by auto
  show ?case
    using Cons.IH[OF fresh] ne kv p by (auto split: option.splits simp: fun_upd_twist)
qed

lemma insert_index_other_keys:
  "array_index (fst kv) \<noteq> None \<Longrightarrow>
     filter (\<lambda>k. array_index k = None \<and> Q k) (map fst (insert_index i kv ps)) =
     filter (\<lambda>k. array_index k = None \<and> Q k) (map fst ps)"
  by (induction ps) (auto split: option.splits)

lemma insert_index_sorted:
  assumes "array_index (fst kv) = Some i" and "fst kv \<notin> fst ` set ps"
    and "sorted_wrt key_before (map fst ps)"
  shows "sorted_wrt key_before (map fst (insert_index i kv ps))"
  using assms(2,3)
proof (induction ps)
  case Nil
  show ?case by simp
next
  case (Cons p ps)
  from Cons.prems have ne: "fst kv \<noteq> fst p" and fresh: "fst kv \<notin> fst ` set ps"
    and tl: "sorted_wrt key_before (map fst ps)"
    and hd: "\<forall>q \<in> set ps. key_before (fst p) (fst q)" by auto
  show ?case
  proof (cases "array_index (fst p)")
    case None
    then have all: "\<forall>q \<in> set ps. array_index (fst q) = None"
      using hd by (auto simp: key_before_def)
    have "key_before (fst kv) (fst p)"
      using None assms(1) ne by (simp add: key_before_def)
    moreover have "\<forall>q \<in> set ps. key_before (fst kv) (fst q)"
      using all assms(1) fresh by (auto simp: key_before_def)
    ultimately show ?thesis using None Cons.prems(2) by simp
  next
    case (Some j)
    show ?thesis
    proof (cases "i < j")
      case True
      have "key_before (fst kv) (fst p)"
        using Some assms(1) ne True by (simp add: key_before_def)
      moreover have "\<forall>q \<in> set ps. key_before (fst kv) (fst q)"
      proof
        fix q assume q: "q \<in> set ps"
        then have "key_before (fst p) (fst q)" using hd by simp
        then show "key_before (fst kv) (fst q)"
          using Some assms(1) True fresh q
          by (auto simp: key_before_def split: option.splits)
      qed
      ultimately show ?thesis using Some True Cons.prems(2) by simp
    next
      case False
      have "key_before (fst p) (fst kv)"
        using Some assms(1) ne False by (simp add: key_before_def)
      have "\<forall>q \<in> set (insert_index i kv ps). key_before (fst p) (fst q)"
      proof
        fix q assume "q \<in> set (insert_index i kv ps)"
        then have "fst q \<in> fst ` set (insert_index i kv ps)" by (rule imageI)
        then have "fst q = fst kv \<or> fst q \<in> fst ` set ps"
          by (simp add: insert_index_keys_set)
        then show "key_before (fst p) (fst q)"
          using \<open>key_before (fst p) (fst kv)\<close> hd by auto
      qed
      then show ?thesis using Some False Cons.IH[OF fresh tl] by simp
    qed
  qed
qed

lemma put_property_keys_set: "fst ` set (put_property k v ps) = insert k (fst ` set ps)"
  by (auto simp: put_property_def add_property_def dom_update insert_index_keys_set
      split: option.splits)

lemma put_property_lookup: "map_of (put_property k v ps) = (map_of ps)(k \<mapsto> v)"
proof (cases "k \<in> fst ` set ps")
  case True
  then show ?thesis by (simp add: put_property_def update_conv')
next
  case False
  then have "map_of ps k = None" by (simp add: map_of_eq_None_iff)
  then have "map_of (ps @ [(k, v)]) = (map_of ps)(k \<mapsto> v)"
    by (auto simp: fun_eq_iff map_add_def split: option.splits)
  then show ?thesis
    using False insert_index_lookup[of "(k, v)" ps]
    by (simp add: put_property_def add_property_def split: option.splits)
qed

lemma put_property_length:
  "length (put_property k v ps) = (if k \<in> fst ` set ps then length ps else Suc (length ps))"
proof -
  have "length (map fst (AList.update k v ps)) = length ps" if "k \<in> fst ` set ps"
    using that by (simp only: update_keys) simp
  then show ?thesis
    by (auto simp: put_property_def add_property_def insert_index_length split: option.splits)
qed

lemma put_property_sorted:
  assumes "sorted_wrt key_before (map fst ps)"
  shows "sorted_wrt key_before (map fst (put_property k v ps))"
proof (cases "k \<in> fst ` set ps")
  case True
  then show ?thesis using assms by (simp add: put_property_def update_keys)
next
  case False
  show ?thesis
  proof (cases "array_index k")
    case None
    have "\<forall>q \<in> set ps. key_before (fst q) k"
      using None False by (auto simp: key_before_def split: option.splits)
    then show ?thesis
      using assms None False by (simp add: put_property_def add_property_def sorted_wrt_append)
  next
    case (Some i)
    then show ?thesis
      using insert_index_sorted[of "(k, v)" i ps] assms False
      by (simp add: put_property_def add_property_def)
  qed
qed

lemma put_property_other_keys:
  "filter (\<lambda>n. array_index n = None \<and> Q n) (map fst (put_property k v ps)) =
     (if array_index k = None \<and> Q k \<and> k \<notin> fst ` set ps
      then filter (\<lambda>n. array_index n = None \<and> Q n) (map fst ps) @ [k]
      else filter (\<lambda>n. array_index n = None \<and> Q n) (map fst ps))"
proof (cases "k \<in> fst ` set ps")
  case True
  then show ?thesis by (simp add: put_property_def update_keys)
next
  case False
  show ?thesis
  proof (cases "array_index k")
    case None
    then show ?thesis using False by (simp add: put_property_def add_property_def)
  next
    case (Some i)
    then show ?thesis
      using False insert_index_other_keys[of "(k, v)" Q i ps]
      by (simp add: put_property_def add_property_def)
  qed
qed

lemma put_property_append:
  "array_index k = None \<Longrightarrow> k \<notin> fst ` set ps \<Longrightarrow> put_property k v ps = ps @ [(k, v)]"
  by (simp add: put_property_def add_property_def)

subsection \<open>Assignments to the record\<close>

lemma assign_other:
  "k \<noteq> ''__proto__'' \<Longrightarrow> assign obj k v = obj\<lparr>obj_own := put_property k v (obj_own obj)\<rparr>"
  by (simp add: assign_def)

lemma assign_cases:
  "obj_own (assign obj k v) = put_property k v (obj_own obj) \<or>
   (k = ''__proto__'' \<and> k \<notin> fst ` set (obj_own obj) \<and> obj_own (assign obj k v) = obj_own obj)"
  by (auto simp: assign_def split: jsval.splits)

lemma assign_lookup:
  assumes "n \<noteq> ''__proto__''"
  shows "map_of (obj_own (assign obj k v)) n = (if k = n then Some v else map_of (obj_own obj) n)"
  using assign_cases[of obj k v] assms by (auto simp: put_property_lookup)

lemma assign_sorted:
  "sorted_wrt key_before (map fst (obj_own obj)) \<Longrightarrow>
     sorted_wrt key_before (map fst (obj_own (assign obj k v)))"
  using assign_cases[of obj k v] by (auto simp: put_property_sorted)

lemma proto_no_index: "array_index ''__proto__'' = None"
  by (simp add: array_index_def is_digit_def)

lemma assign_other_keys:
  "filter (\<lambda>n. array_index n = None \<and> n \<noteq> ''__proto__'') (map fst (obj_own (assign obj k v))) =
     (if array_index k = None \<and> k \<noteq> ''__proto__'' \<and> k \<notin> fst ` set (obj_own obj)
      then filter (\<lambda>n. array_index n = None \<and> n \<noteq> ''__proto__'') (map fst (obj_own obj)) @ [k]
      else filter (\<lambda>n. array_index n = None \<and> n \<noteq> ''__proto__'') (map fst (obj_own obj)))"
  using assign_cases[of obj k v]
  by (elim disjE conjE) (simp_all add: put_property_other_keys[where Q = "\<lambda>n. n \<noteq> ''__proto__''"])

lemma assign_keys_subset:
  "fst ` set (obj_own (assign obj k v)) \<subseteq> insert k (fst ` set (obj_own obj))"
  using assign_cases[of obj k v]
  by (elim disjE conjE) (simp_all add: put_property_keys_set subset_insertI)

lemma assign_keys_other:
  "k \<noteq> ''__proto__'' \<Longrightarrow> fst ` set (obj_own (assign obj k v)) = insert k (fst ` set (obj_own obj))"
  by (simp add: assign_other put_property_keys_set)

lemma assign_primitive:
  assumes "obj_proto obj = Object_prototype" and "''__proto__'' \<notin> fst ` set (obj_own obj)"
    and "k = ''__proto__'' \<Longrightarrow> primitive v"
  shows "obj_proto (assign obj k v) = Object_prototype \<and>
         ''__proto__'' \<notin> fst ` set (obj_own (assign obj k v))"
proof (cases "k = ''__proto__''")
  case True
  then have "primitive v" by (rule assms(3))
  then have "assign obj k v = obj"
    using True assms(1,2) by (cases v) (simp_all add: assign_def)
  then show ?thesis using assms(1,2) by simp
next
  case False
  then show ?thesis
    using assms(1,2) by (auto simp: assign_other put_property_keys_set)
qed

subsection \<open>The record of a row\<close>

lemma rowData_of_fold:
  "rowData_of db cols row =
     fold (\<lambda>col rowData. assign rowData (tc_name col) (projected db row col)) cols
       \<lparr>obj_own = metadata row, obj_proto = Object_prototype\<rparr>"
  by (simp add: rowData_of_def metadata_def)

lemma rowData_of_snoc:
  "rowData_of db (cols @ [c]) row = assign (rowData_of db cols row) (tc_name c) (projected db row c)"
  by (simp add: rowData_of_fold)

lemma rowData_of_Nil:
  "rowData_of db [] row = \<lparr>obj_own = metadata row, obj_proto = Object_prototype\<rparr>"
  by (simp add: rowData_of_fold)

lemma rowData_lookup:
  assumes "n \<noteq> ''__proto__''"
  shows "map_of (obj_own (rowData_of db cols row)) n =
     (case find (\<lambda>c. tc_name c = n) (rev cols) of
        Some c \<Rightarrow> Some (projected db row c)
      | None \<Rightarrow> map_of (metadata row) n)"
proof (induction cols rule: rev_induct)
  case Nil
  show ?case by (simp add: rowData_of_Nil)
next
  case (snoc c cols)
  show ?case
    using snoc.IH by (simp add: rowData_of_snoc assign_lookup[OF assms])
qed

lemma rowData_sorted: "sorted_wrt key_before (map fst (obj_own (rowData_of db cols row)))"
proof (induction cols rule: rev_induct)
  case Nil
  show ?case
    by (simp add: rowData_of_Nil metadata_def key_before_def array_index_def is_digit_def)
next
  case (snoc c cols)
  then show ?case by (simp add: rowData_of_snoc assign_sorted)
qed

lemma metadata_keys: "map fst (metadata row) = [''_rowId'', ''_position'']"
  by (simp add: metadata_def)

lemma metadata_no_index:
  "array_index ''_rowId'' = None" "array_index ''_position'' = None"
  by (simp_all add: array_index_def is_digit_def)

lemma rowData_keys_set:
  "fst ` set (obj_own (rowData_of db cols row)) - {''__proto__''} =
     ({''_rowId'', ''_position''} \<union> tc_name ` set cols) - {''__proto__''}"
proof (induction cols rule: rev_induct)
  case Nil
  show ?case by (auto simp: rowData_of_Nil metadata_def)
next
  case (snoc c cols)
  show ?case
  proof (cases "tc_name c = ''__proto__''")
    case True
    have "fst ` set (obj_own (rowData_of db (cols @ [c]) row)) - {''__proto__''} =
        fst ` set (obj_own (rowData_of db cols row)) - {''__proto__''}"
      using assign_cases[of "rowData_of db cols row" "tc_name c" "projected db row c"] True
      by (elim disjE conjE) (simp_all add: rowData_of_snoc put_property_keys_set)
    then show ?thesis using snoc.IH True by auto
  next
    case False
    then show ?thesis
      using snoc.IH by (auto simp: rowData_of_snoc assign_keys_other)
  qed
qed

lemma rowData_other_keys:
  "filter (\<lambda>n. array_index n = None \<and> n \<noteq> ''__proto__'') (map fst (obj_own (rowData_of db cols row))) =
     [''_rowId'', ''_position''] @
     first_occurrences
       (filter (\<lambda>n. array_index n = None \<and> n \<noteq> ''__proto__'' \<and> n \<noteq> ''_rowId'' \<and> n \<noteq> ''_position'')
          (map tc_name cols))"
proof (induction cols rule: rev_induct)
  case Nil
  show ?case
    by (simp add: rowData_of_Nil metadata_def metadata_no_index first_occurrences_Nil)
next
  case (snoc c cols)
  let ?k = "tc_name c"
  let ?P = "\<lambda>n. array_index n = None \<and> n \<noteq> ''__proto__''"
  let ?R = "\<lambda>n. array_index n = None \<and> n \<noteq> ''__proto__'' \<and> n \<noteq> ''_rowId'' \<and> n \<noteq> ''_position''"
  have keys: "?k \<in> fst ` set (obj_own (rowData_of db cols row)) \<longleftrightarrow>
      ?k \<in> {''_rowId'', ''_position''} \<union> tc_name ` set cols" if "?k \<noteq> ''__proto__''"
    using rowData_keys_set[of db cols row] that by blast
  show ?case
  proof (cases "?R ?k \<and> ?k \<notin> tc_name ` set cols")
    case True
    then have "?k \<notin> fst ` set (obj_own (rowData_of db cols row))" using keys by auto
    with True show ?thesis
      using snoc.IH by (simp add: rowData_of_snoc assign_other_keys first_occurrences_snoc)
  next
    case False
    then have "\<not> (?P ?k \<and> ?k \<notin> fst ` set (obj_own (rowData_of db cols row)))"
      using keys by auto
    then have "filter ?P (map fst (obj_own (rowData_of db (cols @ [c]) row))) =
        filter ?P (map fst (obj_own (rowData_of db cols row)))"
      by (auto simp: rowData_of_snoc assign_other_keys)
    moreover have "first_occurrences (filter ?R (map tc_name (cols @ [c]))) =
        first_occurrences (filter ?R (map tc_name cols))"
      using False by (auto simp: first_occurrences_snoc)
    ultimately show ?thesis using snoc.IH by simp
  qed
qed

lemma rowData_primitive:
  assumes "\<forall>c \<in> set cols. tc_name c = ''__proto__'' \<longrightarrow> primitive (projected db row c)"
  shows "obj_proto (rowData_of db cols row) = Object_prototype \<and>
         ''__proto__'' \<notin> fst ` set (obj_own (rowData_of db cols row))"
  using assms
proof (induction cols rule: rev_induct)
  case Nil
  show ?case by (simp add: rowData_of_Nil metadata_def)
next
  case (snoc c cols)
  then have ih: "obj_proto (rowData_of db cols row) = Object_prototype"
      "''__proto__'' \<notin> fst ` set (obj_own (rowData_of db cols row))"
    and p: "tc_name c = ''__proto__'' \<Longrightarrow> primitive (projected db row c)" by auto
  show ?case
    unfolding rowData_of_snoc using ih p by (intro assign_primitive)
qed

lemma getData_nth:
  "i < length (DataTable_getRows path db this) \<Longrightarrow>
     DataTable_getData path db this ! i =
       rowData_of db (DataTable_getColumns path db this) (DataTable_getRows path db this ! i)"
  by (simp add: DataTable_getData_def Let_def)

lemma getData_length:
  "length (DataTable_getData path db this) = length (DataTable_getRows path db this)"
  by (simp add: DataTable_getData_def Let_def)


lemma key_order_distinct: "sorted_wrt key_before ks \<Longrightarrow> distinct ks"
  by (induction ks) (auto simp: key_before_def)

lemma clash_store_eq:
  "clash_store =
     \<lparr>db_tables = [\<lparr>t_id = 1, t_name = ''Sheet'', t_created_at = 1\<rparr>],
      db_columns =
        [\<lparr>c_id = 1, c_table_id = 1, c_name = ''_rowId'', c_type = ''text'',
          c_options = Some (TObj []), c_created_at = 2\<rparr>,
         \<lparr>c_id = 2, c_table_id = 1, c_name = ''Name'', c_type = ''text'',
          c_options = Some (TObj []), c_created_at = 3\<rparr>,
         \<lparr>c_id = 3, c_table_id = 1, c_name = ''Name'', c_type = ''text'',
          c_options = Some (TObj []), c_created_at = 4\<rparr>],
      db_rows = [\<lparr>r_id = 1, r_table_id = 1, r_position = 0, r_created_at = 5\<rparr>],
      db_cells =
        [\<lparr>x_id = 1, x_row_id = 1, x_column_id = 2, x_value = Some (TStr ''first''),
          x_updated_at = 6\<rparr>,
         \<lparr>x_id = 2, x_row_id = 1, x_column_id = 3, x_value = Some (TStr ''second''),
          x_updated_at = 7\<rparr>],
      seq_tables = 1, seq_columns = 3, seq_rows = 1, seq_cells = 2\<rparr>"
  by (simp add: clash_store_def op_defs sheet_def line_def List.map_filter_def)

lemma proto_store_eq:
  "proto_store =
     \<lparr>db_tables = [\<lparr>t_id = 1, t_name = ''Sheet'', t_created_at = 1\<rparr>],
      db_columns =
        [\<lparr>c_id = 1, c_table_id = 1, c_name = ''__proto__'', c_type = ''text'',
          c_options = Some (TObj []), c_created_at = 2\<rparr>,
         \<lparr>c_id = 2, c_table_id = 1, c_name = ''__proto__'', c_type = ''text'',
          c_options = Some (TObj []), c_created_at = 3\<rparr>,
         \<lparr>c_id = 3, c_table_id = 1, c_name = ''Name'', c_type = ''text'',
          c_options = Some (TObj []), c_created_at = 4\<rparr>],
      db_rows = [\<lparr>r_id = 1, r_table_id = 1, r_position = 0, r_created_at = 5\<rparr>],
      db_cells =
        [\<lparr>x_id = 1, x_row_id = 1, x_column_id = 1, x_value = Some (TStr ''a''),
          x_updated_at = 6\<rparr>,
         \<lparr>x_id = 2, x_row_id = 1, x_column_id = 2, x_value = Some (TStr ''b''),
          x_updated_at = 7\<rparr>,
         \<lparr>x_id = 3, x_row_id = 1, x_column_id = 3, x_value = Some (TStr ''n''),
          x_updated_at = 8\<rparr>],
      seq_tables = 1, seq_columns = 3, seq_rows = 1, seq_cells = 3\<rparr>"
  by (simp add: proto_store_def op_defs sheet_def line_def List.map_filter_def)

lemma index_store_eq:
  "index_store =
     \<lparr>db_tables = [\<lparr>t_id = 1, t_name = ''Sheet'', t_created_at = 1\<rparr>],
      db_columns =
        [\<lparr>c_id = 1, c_table_id = 1, c_name = ''Name'', c_type = ''text'',
          c_options = Some (TObj []), c_created_at = 2\<rparr>,
         \<lparr>c_id = 2, c_table_id = 1, c_name = ''7'', c_type = ''text'',
          c_options = Some (TObj []), c_created_at = 3\<rparr>],
      db_rows = [\<lparr>r_id = 1, r_table_id = 1, r_position = 0, r_created_at = 5\<rparr>],
      db_cells =
        [\<lparr>x_id = 1, x_row_id = 1, x_column_id = 1, x_value = Some (TStr ''n''),
          x_updated_at = 6\<rparr>,
         \<lparr>x_id = 2, x_row_id = 1, x_column_id = 2, x_value = Some (TStr ''seven''),
          x_updated_at = 7\<rparr>],
      seq_tables = 1, seq_columns = 2, seq_rows = 1, seq_cells = 2\<rparr>"
  by (simp add: index_store_def op_defs sheet_def line_def List.map_filter_def)

lemma clash_getRows:
  "DataTable_getRows Table_scan clash_store sheet =
     [\<lparr>tr_id = 1, tr_tableId = 1, tr_position = 0, tr_createdAt = 5\<rparr>]"
  by (simp add: clash_store_eq sheet_def read_defs)

lemma clash_getData:
  "DataTable_getData Table_scan clash_store sheet =
     [\<lparr>obj_own = [(''_rowId'', JNull), (''_position'', JNum 0), (''Name'', JStr ''second'')],
       obj_proto = Object_prototype\<rparr>]"
  by (simp add: clash_store_eq sheet_def read_defs obj_defs)

lemma proto_getData:
  "DataTable_getData Table_scan proto_store sheet =
     [\<lparr>obj_own = [(''_rowId'', JNum 1), (''_position'', JNum 0), (''Name'', JStr ''n'')],
       obj_proto = Object_prototype\<rparr>]"
  by (simp add: proto_store_eq sheet_def read_defs obj_defs)

lemma proto_getColumns:
  "map tc_name (DataTable_getColumns Table_scan proto_store sheet) = [''__proto__'', ''__proto__'', ''Name'']"
  by (simp add: proto_store_eq sheet_def read_defs)

lemma index_getData:
  "DataTable_getData Table_scan index_store sheet =
     [\<lparr>obj_own = [(''7'', JStr ''seven''), (''_rowId'', JNum 1), (''_position'', JNum 0),
                  (''Name'', JStr ''n'')],
       obj_proto = Object_prototype\<rparr>]"
  by (simp add: index_store_eq sheet_def read_defs obj_defs)

text \<open>
  With two columns named \<^verbatim>\<open>__proto__\<close>, whose cells hold the strings a and b, the record has
  no field of that name: neither one field per column nor a single field with the later
  value.
\<close>

theorem getData_proto_counterexample:
  "map tc_name (DataTable_getColumns Table_scan proto_store sheet) = [''__proto__'', ''__proto__'', ''Name''] \<and>
   map_option cd_value (CellData_get proto_store 1 1) = Some (JStr ''a'') \<and>
   map_option cd_value (CellData_get proto_store 1 2) = Some (JStr ''b'') \<and>
   map obj_own (DataTable_getData Table_scan proto_store sheet) =
     [[(''_rowId'', JNum 1), (''_position'', JNum 0), (''Name'', JStr ''n'')]]"
proof -
  have 1: "map_option cd_value (CellData_get proto_store 1 1) = Some (JStr ''a'')"
    by (simp add: proto_store_eq read_defs)
  have 2: "map_option cd_value (CellData_get proto_store 1 2) = Some (JStr ''b'')"
    by (simp add: proto_store_eq read_defs)
  have 3: "map obj_own (DataTable_getData Table_scan proto_store sheet) =
     [[(''_rowId'', JNum 1), (''_position'', JNum 0), (''Name'', JStr ''n'')]]"
    by (simp add: proto_getData)
  show ?thesis by (intro conjI) (rule proto_getColumns 1 2 3)+
qed

text \<open>
  C10, amended. A record of \<^verbatim>\<open>getData\<close> is a flat object assembled by starting from the two
  metadata properties and assigning, column after column, the projected value (the cell's
  value, or null) to the property named by the column. No name occurs twice; names that
  are array indices come first in ascending order, then \<^verbatim>\<open>_rowId\<close>, \<^verbatim>\<open>_position\<close> and the
  other column names at their first occurrence. For every name but \<^verbatim>\<open>__proto__\<close> the
  property holds the value of the last column of that name, and the metadata value only
  when no column has the name: a column named like a metadata property overwrites it, and
  of two columns with one name the later one gives the value. The name \<^verbatim>\<open>__proto__\<close> gets
  no field as long as the columns of that name project strings, numbers or booleans.
\<close>

theorem getData_record_is_flat:
  "length (DataTable_getData path db this) = length (DataTable_getRows path db this) \<and>
   (\<forall>i < length (DataTable_getRows path db this).
      sorted_wrt key_before (map fst (obj_own (DataTable_getData path db this ! i))) \<and>
      distinct (map fst (obj_own (DataTable_getData path db this ! i))) \<and>
      filter (\<lambda>n. array_index n = None \<and> n \<noteq> ''__proto__'')
        (map fst (obj_own (DataTable_getData path db this ! i))) =
        [''_rowId'', ''_position''] @
        first_occurrences
          (filter (\<lambda>n. array_index n = None \<and> n \<noteq> ''__proto__'' \<and> n \<noteq> ''_rowId'' \<and> n \<noteq> ''_position'')
             (map tc_name (DataTable_getColumns path db this))) \<and>
      fst ` set (obj_own (DataTable_getData path db this ! i)) - {''__proto__''} =
        ({''_rowId'', ''_position''} \<union> tc_name ` set (DataTable_getColumns path db this)) - {''__proto__''} \<and>
      (\<forall>n. n \<noteq> ''__proto__'' \<longrightarrow>
         map_of (obj_own (DataTable_getData path db this ! i)) n =
           (case find (\<lambda>c. tc_name c = n) (rev (DataTable_getColumns path db this)) of
              Some c \<Rightarrow> Some (projected db (DataTable_getRows path db this ! i) c)
            | None \<Rightarrow> map_of (metadata (DataTable_getRows path db this ! i)) n)) \<and>
      ((\<forall>c \<in> set (DataTable_getColumns path db this).
          tc_name c = ''__proto__'' \<longrightarrow> primitive (projected db (DataTable_getRows path db this ! i) c)) \<longrightarrow>
       obj_proto (DataTable_getData path db this ! i) = Object_prototype \<and>
       ''__proto__'' \<notin> fst ` set (obj_own (DataTable_getData path db this ! i))))"
proof (intro conjI allI impI)
  show "length (DataTable_getData path db this) = length (DataTable_getRows path db this)"
    by (rule getData_length)
next
  fix i assume i: "i < length (DataTable_getRows path db this)"
  let ?row = "DataTable_getRows path db this ! i"
  let ?cols = "DataTable_getColumns path db this"
  note rec = getData_nth[OF i]
  show s: "sorted_wrt key_before (map fst (obj_own (DataTable_getData path db this ! i)))"
    unfolding rec by (rule rowData_sorted)
  show "distinct (map fst (obj_own (DataTable_getData path db this ! i)))"
    using s by (rule key_order_distinct)
  show "filter (\<lambda>n. array_index n = None \<and> n \<noteq> ''__proto__'')
        (map fst (obj_own (DataTable_getData path db this ! i))) =
        [''_rowId'', ''_position''] @
        first_occurrences
          (filter (\<lambda>n. array_index n = None \<and> n \<noteq> ''__proto__'' \<and> n \<noteq> ''_rowId'' \<and> n \<noteq> ''_position'')
             (map tc_name ?cols))"
    unfolding rec by (rule rowData_other_keys)
  show "fst ` set (obj_own (DataTable_getData path db this ! i)) - {''__proto__''} =
        ({''_rowId'', ''_position''} \<union> tc_name ` set ?cols) - {''__proto__''}"
    unfolding rec by (rule rowData_keys_set)
  {
    fix n :: string assume "n \<noteq> ''__proto__''"
    then show "map_of (obj_own (DataTable_getData path db this ! i)) n =
           (case find (\<lambda>c. tc_name c = n) (rev ?cols) of
              Some c \<Rightarrow> Some (projected db ?row c)
            | None \<Rightarrow> map_of (metadata ?row) n)"
      unfolding rec by (rule rowData_lookup)
  }
  {
    assume p: "\<forall>c \<in> set ?cols. tc_name c = ''__proto__'' \<longrightarrow> primitive (projected db ?row c)"
    show "obj_proto (DataTable_getData path db this ! i) = Object_prototype"
      and "''__proto__'' \<notin> fst ` set (obj_own (DataTable_getData path db this ! i))"
      unfolding rec using rowData_primitive[OF p] by simp_all
  }
qed

theorem getData_record_is_flat_witness:
  "0 < length (DataTable_getRows Table_scan clash_store sheet) \<and>
   map tc_name (DataTable_getColumns Table_scan clash_store sheet) = [''_rowId'', ''Name'', ''Name''] \<and>
   map (projected clash_store (DataTable_getRows Table_scan clash_store sheet ! 0))
     (DataTable_getColumns Table_scan clash_store sheet) = [JNull, JStr ''first'', JStr ''second''] \<and>
   DataTable_getData Table_scan clash_store sheet ! 0 =
     \<lparr>obj_own = [(''_rowId'', JNull), (''_position'', JNum 0), (''Name'', JStr ''second'')],
      obj_proto = Object_prototype\<rparr> \<and>
   map_of (obj_own (DataTable_getData Table_scan clash_store sheet ! 0)) ''_rowId'' = Some JNull \<and>
   map_of (obj_own (DataTable_getData Table_scan clash_store sheet ! 0)) ''Name'' = Some (JStr ''second'') \<and>
   DataTable_getData Table_scan index_store sheet =
     [\<lparr>obj_own = [(''7'', JStr ''seven''), (''_rowId'', JNum 1), (''_position'', JNum 0),
                  (''Name'', JStr ''n'')],
       obj_proto = Object_prototype\<rparr>]"
proof -
  have l: "0 < length (DataTable_getRows Table_scan clash_store sheet)"
    by (simp add: clash_getRows)
  have c: "map tc_name (DataTable_getColumns Table_scan clash_store sheet) = [''_rowId'', ''Name'', ''Name'']"
    by (simp add: clash_store_eq sheet_def read_defs)
  have p: "map (projected clash_store (DataTable_getRows Table_scan clash_store sheet ! 0))
     (DataTable_getColumns Table_scan clash_store sheet) = [JNull, JStr ''first'', JStr ''second'']"
    unfolding clash_getRows by (simp add: clash_store_eq sheet_def read_defs)
  have d: "DataTable_getData Table_scan clash_store sheet ! 0 =
     \<lparr>obj_own = [(''_rowId'', JNull), (''_position'', JNum 0), (''Name'', JStr ''second'')],
      obj_proto = Object_prototype\<rparr>"
    by (simp add: clash_getData)
  have "\<forall>n. n \<noteq> ''__proto__'' \<longrightarrow>
         map_of (obj_own (DataTable_getData Table_scan clash_store sheet ! 0)) n =
           (case find (\<lambda>c. tc_name c = n) (rev (DataTable_getColumns Table_scan clash_store sheet)) of
              Some c \<Rightarrow> Some (projected clash_store (DataTable_getRows Table_scan clash_store sheet ! 0) c)
            | None \<Rightarrow> map_of (metadata (DataTable_getRows Table_scan clash_store sheet ! 0)) n)"
    using getData_record_is_flat[of Table_scan clash_store sheet] l by blast
  then have "map_of (obj_own (DataTable_getData Table_scan clash_store sheet ! 0)) ''_rowId'' \<noteq> None"
    by (simp add: clash_store_eq sheet_def DataTable_getColumns_def TableColumn_getByTable_def
          column_of_def)
  then have 1: "map_of (obj_own (DataTable_getData Table_scan clash_store sheet ! 0)) ''_rowId'' = Some JNull"
    by (simp add: d)
  have 2: "map_of (obj_own (DataTable_getData Table_scan clash_store sheet ! 0)) ''Name'' = Some (JStr ''second'')"
    by (simp add: d)
  show ?thesis
    by (intro conjI) (rule l c p d 1 2 index_getData)+
qed

lemma first_occurrences_distinct: "distinct xs \<Longrightarrow> first_occurrences xs = xs"
  by (simp add: first_occurrences_def distinct_remdups_id)

lemma find_Some_mem: "find P xs = Some x \<Longrightarrow> x \<in> set xs \<and> P x"
  by (induction xs) (auto split: if_splits)

lemma find_last_unique:
  assumes "c \<in> set cs" and "distinct (map f cs)"
  shows "find (\<lambda>x. f x = f c) (rev cs) = Some c"
proof -
  from assms(1) obtain x where x: "find (\<lambda>x. f x = f c) (rev cs) = Some x"
    by (cases "find (\<lambda>x. f x = f c) (rev cs)") (auto simp: find_None_iff)
  then have "x \<in> set cs" "f x = f c"
    using find_Some_mem[OF x] by simp_all
  then have "x = c"
    using assms by (auto simp: distinct_map dest: inj_onD)
  with x show ?thesis by simp
qed

lemma rowData_plain:
  assumes "distinct (map tc_name cols)"
    and "\<forall>c \<in> set cols. array_index (tc_name c) = None \<and> tc_name c \<noteq> ''__proto__'' \<and>
           tc_name c \<noteq> ''_rowId'' \<and> tc_name c \<noteq> ''_position''"
  shows "rowData_of db cols row =
     \<lparr>obj_own = metadata row @ map (\<lambda>c. (tc_name c, projected db row c)) cols,
      obj_proto = Object_prototype\<rparr>"
  using assms
proof (induction cols rule: rev_induct)
  case Nil
  show ?case by (simp add: rowData_of_Nil)
next
  case (snoc c cols)
  then have ih: "rowData_of db cols row =
     \<lparr>obj_own = metadata row @ map (\<lambda>c. (tc_name c, projected db row c)) cols,
      obj_proto = Object_prototype\<rparr>" by simp
  have k: "array_index (tc_name c) = None" "tc_name c \<noteq> ''__proto__''"
    and fresh: "tc_name c \<notin> fst ` set (metadata row @ map (\<lambda>c. (tc_name c, projected db row c)) cols)"
    using snoc.prems by (auto simp: metadata_def)
  show ?case
    by (simp add: rowData_of_snoc ih assign_other[OF k(2)] put_property_append[OF k(1) fresh])
qed

lemma getRows_reachable:
  assumes "reachable db"
  shows "DataTable_getRows path db this =
     map row_of (sort_key r_position (filter (\<lambda>r. r_table_id r = dt_id this) (db_rows db)))"
proof -
  have "sorted_wrt (<) (map r_id (db_rows db))"
    using reachable_schema_ok[OF assms] by (simp add: schema_ok_def)
  then show ?thesis
    by (simp add: DataTable_getRows_def TableRow_getByTable_def where_table_id_ascending)
qed

lemma getRows_sorted: "sorted (map tr_position (DataTable_getRows path db this))"
proof -
  have "map tr_position (DataTable_getRows path db this) =
      map r_position (sort_key r_position
        (where_table_id path r_id r_table_id (dt_id this) (db_rows db)))"
    by (simp add: DataTable_getRows_def TableRow_getByTable_def row_of_def)
  then show ?thesis by simp
qed

text \<open>
  In a table with a column named \<^verbatim>\<open>_rowId\<close> and two columns named Name, the record of
  row 1 holds null under \<^verbatim>\<open>_rowId\<close>, not the id 1, and no property holds the value of the
  cell of the first Name column. In a table with columns named \<^verbatim>\<open>__proto__\<close> the record has
  no field for them, although their cells hold values.
\<close>

theorem getData_metadata_counterexample:
  "map tc_name (DataTable_getColumns Table_scan clash_store sheet) = [''_rowId'', ''Name'', ''Name''] \<and>
   map tr_id (DataTable_getRows Table_scan clash_store sheet) = [1] \<and>
   map_option cd_value (CellData_get clash_store 1 2) = Some (JStr ''first'') \<and>
   map obj_own (DataTable_getData Table_scan clash_store sheet) =
     [[(''_rowId'', JNull), (''_position'', JNum 0), (''Name'', JStr ''second'')]] \<and>
   map tc_name (DataTable_getColumns Table_scan proto_store sheet) = [''__proto__'', ''__proto__'', ''Name''] \<and>
   map_option cd_value (CellData_get proto_store 1 1) = Some (JStr ''a'') \<and>
   map obj_own (DataTable_getData Table_scan proto_store sheet) =
     [[(''_rowId'', JNum 1), (''_position'', JNum 0), (''Name'', JStr ''n'')]]"
proof -
  have 1: "map tc_name (DataTable_getColumns Table_scan clash_store sheet) = [''_rowId'', ''Name'', ''Name'']"
    by (simp add: clash_store_eq sheet_def read_defs)
  have 2: "map tr_id (DataTable_getRows Table_scan clash_store sheet) = [1]"
    by (simp add: clash_getRows)
  have 3: "map_option cd_value (CellData_get clash_store 1 2) = Some (JStr ''first'')"
    by (simp add: clash_store_eq read_defs)
  have 4: "map obj_own (DataTable_getData Table_scan clash_store sheet) =
     [[(''_rowId'', JNull), (''_position'', JNum 0), (''Name'', JStr ''second'')]]"
    by (simp add: clash_getData)
  have 5: "map_option cd_value (CellData_get proto_store 1 1) = Some (JStr ''a'')"
    by (simp add: proto_store_eq read_defs)
  have 6: "map obj_own (DataTable_getData Table_scan proto_store sheet) =
     [[(''_rowId'', JNum 1), (''_position'', JNum 0), (''Name'', JStr ''n'')]]"
    by (simp add: proto_getData)
  show ?thesis by (intro conjI) (rule 1 2 3 4 proto_getColumns 5 6)+
qed

text \<open>
  C1, amended. On a reachable store, when the column names of the table are pairwise
  distinct and none is \<^verbatim>\<open>_rowId\<close>, \<^verbatim>\<open>_position\<close> or \<^verbatim>\<open>__proto__\<close>, \<^verbatim>\<open>getData\<close> returns as many
  records as the table has rows, one per row of \<^verbatim>\<open>getRows\<close>, which holds the table's rows
  in ascending position. A record has exactly the two metadata fields and one field per
  column: \<^verbatim>\<open>_rowId\<close> is the row's id, \<^verbatim>\<open>_position\<close> its position, and the field of each
  column, taken in creation order, holds the cell's value, or null when the pair has no
  cell. The fields stand in that order, except that fields whose names are array indices
  stand first.
\<close>

theorem getData_records:
  assumes "reachable db"
    and "distinct (map tc_name (columns_in_creation_order db this))"
    and "''_rowId'' \<notin> tc_name ` set (columns_in_creation_order db this)"
    and "''_position'' \<notin> tc_name ` set (columns_in_creation_order db this)"
    and "''__proto__'' \<notin> tc_name ` set (columns_in_creation_order db this)"
  shows "length (DataTable_getData path db this) =
           length (filter (\<lambda>r. r_table_id r = dt_id this) (db_rows db)) \<and>
         length (DataTable_getRows path db this) = length (DataTable_getData path db this) \<and>
         sorted (map tr_position (DataTable_getRows path db this)) \<and>
         mset (DataTable_getRows path db this) =
           mset (map row_of (filter (\<lambda>r. r_table_id r = dt_id this) (db_rows db))) \<and>
         DataTable_getColumns path db this = columns_in_creation_order db this \<and>
         (\<forall>i < length (DataTable_getRows path db this).
            obj_proto (DataTable_getData path db this ! i) = Object_prototype \<and>
            sorted_wrt key_before (map fst (obj_own (DataTable_getData path db this ! i))) \<and>
            length (obj_own (DataTable_getData path db this ! i)) =
              2 + length (columns_in_creation_order db this) \<and>
            filter (\<lambda>n. array_index n = None) (map fst (obj_own (DataTable_getData path db this ! i))) =
              [''_rowId'', ''_position''] @
              filter (\<lambda>n. array_index n = None) (map tc_name (columns_in_creation_order db this)) \<and>
            map_of (obj_own (DataTable_getData path db this ! i)) ''_rowId'' =
              Some (JNum (of_nat (tr_id (DataTable_getRows path db this ! i)))) \<and>
            map_of (obj_own (DataTable_getData path db this ! i)) ''_position'' =
              Some (JNum (of_int (tr_position (DataTable_getRows path db this ! i)))) \<and>
            (\<forall>col \<in> set (columns_in_creation_order db this).
               map_of (obj_own (DataTable_getData path db this ! i)) (tc_name col) =
                 Some (case CellData_get db (tr_id (DataTable_getRows path db this ! i)) (tc_id col) of
                         Some cell \<Rightarrow> cd_value cell
                       | None \<Rightarrow> JNull)) \<and>
            ((\<forall>col \<in> set (columns_in_creation_order db this). array_index (tc_name col) = None) \<longrightarrow>
               obj_own (DataTable_getData path db this ! i) =
                 [(''_rowId'', JNum (of_nat (tr_id (DataTable_getRows path db this ! i)))),
                  (''_position'', JNum (of_int (tr_position (DataTable_getRows path db this ! i))))] @
                 map (\<lambda>col. (tc_name col,
                              case CellData_get db (tr_id (DataTable_getRows path db this ! i)) (tc_id col) of
                                Some cell \<Rightarrow> cd_value cell
                              | None \<Rightarrow> JNull))
                   (columns_in_creation_order db this)))"
proof (intro conjI allI impI ballI)
  let ?cols = "columns_in_creation_order db this"
  have nm: "tc_name c \<noteq> ''_rowId'' \<and> tc_name c \<noteq> ''_position'' \<and> tc_name c \<noteq> ''__proto__''"
    if "c \<in> set ?cols" for c
    using that assms(3,4,5) by (metis imageI)
  have cols: "DataTable_getColumns path db this = ?cols"
    by (rule getColumns_reachable[OF assms(1)])
  have rows: "DataTable_getRows path db this =
     map row_of (sort_key r_position (filter (\<lambda>r. r_table_id r = dt_id this) (db_rows db)))"
    by (rule getRows_reachable[OF assms(1)])
  show "DataTable_getColumns path db this = ?cols" by (rule cols)
  show "length (DataTable_getData path db this) =
           length (filter (\<lambda>r. r_table_id r = dt_id this) (db_rows db))"
    by (simp add: getData_length rows)
  show "length (DataTable_getRows path db this) = length (DataTable_getData path db this)"
    by (simp add: getData_length)
  show "sorted (map tr_position (DataTable_getRows path db this))"
    by (rule getRows_sorted)
  show "mset (DataTable_getRows path db this) =
           mset (map row_of (filter (\<lambda>r. r_table_id r = dt_id this) (db_rows db)))"
    by (simp add: rows del: mset_filter)
  fix i assume i: "i < length (DataTable_getRows path db this)"
  let ?row = "DataTable_getRows path db this ! i"
  let ?rec = "DataTable_getData path db this ! i"
  have rec: "?rec = rowData_of db ?cols ?row"
    using getData_nth[OF i] by (simp add: cols)
  have "\<forall>c \<in> set ?cols. tc_name c = ''__proto__'' \<longrightarrow> primitive (projected db ?row c)"
    using assms(5) by (metis imageI)
  from rowData_primitive[OF this]
  have pr: "obj_proto ?rec = Object_prototype" and np: "''__proto__'' \<notin> fst ` set (obj_own ?rec)"
    by (simp_all add: rec)
  show "obj_proto ?rec = Object_prototype" by (rule pr)
  show so: "sorted_wrt key_before (map fst (obj_own ?rec))"
    unfolding rec by (rule rowData_sorted)
  have keys: "fst ` set (obj_own ?rec) = {''_rowId'', ''_position''} \<union> tc_name ` set ?cols"
    using rowData_keys_set[of db ?cols ?row] np assms(5) by (auto simp: rec)
  have "length (obj_own ?rec) = card (set (map fst (obj_own ?rec)))"
    using distinct_card[OF key_order_distinct[OF so]] by simp
  also have "\<dots> = card ({''_rowId'', ''_position''} \<union> tc_name ` set ?cols)"
    using keys by simp
  also have "\<dots> = card {''_rowId'', ''_position''} + card (tc_name ` set ?cols)"
    using assms(3,4) by (intro card_Un_disjoint) auto
  also have "card (tc_name ` set ?cols) = length ?cols"
    using assms(2) distinct_card[of "map tc_name ?cols"] by simp
  finally show "length (obj_own ?rec) = 2 + length ?cols" by simp
  have "filter (\<lambda>n. array_index n = None) (map fst (obj_own ?rec)) =
      filter (\<lambda>n. array_index n = None \<and> n \<noteq> ''__proto__'') (map fst (obj_own ?rec))"
  proof (rule filter_cong)
    fix n assume "n \<in> set (map fst (obj_own ?rec))"
    then have "n \<in> fst ` set (obj_own ?rec)" by simp
    then have "n \<noteq> ''__proto__''" using np by blast
    then show "(array_index n = None) = (array_index n = None \<and> n \<noteq> ''__proto__'')" by simp
  qed simp
  also have "\<dots> = [''_rowId'', ''_position''] @
     first_occurrences
       (filter (\<lambda>n. array_index n = None \<and> n \<noteq> ''__proto__'' \<and> n \<noteq> ''_rowId'' \<and> n \<noteq> ''_position'')
          (map tc_name ?cols))"
    unfolding rec by (rule rowData_other_keys)
  also have "filter (\<lambda>n. array_index n = None \<and> n \<noteq> ''__proto__'' \<and> n \<noteq> ''_rowId'' \<and> n \<noteq> ''_position'')
          (map tc_name ?cols) = filter (\<lambda>n. array_index n = None) (map tc_name ?cols)"
  proof (rule filter_cong)
    fix n assume "n \<in> set (map tc_name ?cols)"
    then obtain c where "c \<in> set ?cols" "n = tc_name c" by auto
    then show "(array_index n = None \<and> n \<noteq> ''__proto__'' \<and> n \<noteq> ''_rowId'' \<and> n \<noteq> ''_position'') =
        (array_index n = None)" using nm[of c] by simp
  qed simp
  also have "first_occurrences (filter (\<lambda>n. array_index n = None) (map tc_name ?cols)) =
      filter (\<lambda>n. array_index n = None) (map tc_name ?cols)"
    using assms(2) by (intro first_occurrences_distinct distinct_filter)
  finally show "filter (\<lambda>n. array_index n = None) (map fst (obj_own ?rec)) =
      [''_rowId'', ''_position''] @ filter (\<lambda>n. array_index n = None) (map tc_name ?cols)" .
  have none: "find (\<lambda>c. tc_name c = n) (rev ?cols) = None" if "n \<notin> tc_name ` set ?cols" for n
    using that by (auto simp: find_None_iff)
  show "map_of (obj_own ?rec) ''_rowId'' = Some (JNum (of_nat (tr_id ?row)))"
    unfolding rec by (simp add: rowData_lookup none[OF assms(3)] metadata_def)
  show "map_of (obj_own ?rec) ''_position'' = Some (JNum (of_int (tr_position ?row)))"
    unfolding rec by (simp add: rowData_lookup none[OF assms(4)] metadata_def)
  {
    fix col assume col: "col \<in> set ?cols"
    then have "tc_name col \<noteq> ''__proto__''" using nm by simp
    then show "map_of (obj_own ?rec) (tc_name col) =
                 Some (case CellData_get db (tr_id ?row) (tc_id col) of
                         Some cell \<Rightarrow> cd_value cell | None \<Rightarrow> JNull)"
      unfolding rec
      by (simp add: rowData_lookup find_last_unique[OF col assms(2)] projected_def)
  }
  {
    assume "\<forall>col \<in> set ?cols. array_index (tc_name col) = None"
    then have "\<forall>c \<in> set ?cols. array_index (tc_name c) = None \<and> tc_name c \<noteq> ''__proto__'' \<and>
           tc_name c \<noteq> ''_rowId'' \<and> tc_name c \<noteq> ''_position''"
      using nm by simp
    from rowData_plain[OF assms(2) this, of db ?row]
    show "obj_own ?rec =
                 [(''_rowId'', JNum (of_nat (tr_id ?row))),
                  (''_position'', JNum (of_int (tr_position ?row)))] @
                 map (\<lambda>col. (tc_name col,
                              case CellData_get db (tr_id ?row) (tc_id col) of
                                Some cell \<Rightarrow> cd_value cell | None \<Rightarrow> JNull)) ?cols"
      by (simp add: rec metadata_def projected_def[abs_def])
  }
qed

theorem getData_records_witness:
  "reachable ordered_store \<and>
   map tc_name (columns_in_creation_order ordered_store users) = [''Name'', ''Age''] \<and>
   map r_position (filter (\<lambda>r. r_table_id r = dt_id users) (db_rows ordered_store)) = [7, 3] \<and>
   length (DataTable_getData Index_scan ordered_store users) = 2 \<and>
   DataTable_getData Index_scan ordered_store users =
     [\<lparr>obj_own = [(''_rowId'', JNum 2), (''_position'', JNum 3), (''Name'', JStr ''Bob''),
                  (''Age'', JNull)],
       obj_proto = Object_prototype\<rparr>,
      \<lparr>obj_own = [(''_rowId'', JNum 1), (''_position'', JNum 7), (''Name'', JNull),
                  (''Age'', JNull)],
       obj_proto = Object_prototype\<rparr>]"
proof -
  have s: "ordered_store =
     \<lparr>db_tables = [\<lparr>t_id = 1, t_name = ''Users'', t_created_at = 1\<rparr>],
      db_columns =
        [\<lparr>c_id = 1, c_table_id = 1, c_name = ''Name'', c_type = ''text'',
          c_options = Some (TObj []), c_created_at = 2\<rparr>,
         \<lparr>c_id = 2, c_table_id = 1, c_name = ''Age'', c_type = ''number'',
          c_options = Some (TObj []), c_created_at = 3\<rparr>],
      db_rows =
        [\<lparr>r_id = 1, r_table_id = 1, r_position = 7, r_created_at = 4\<rparr>,
         \<lparr>r_id = 2, r_table_id = 1, r_position = 3, r_created_at = 5\<rparr>],
      db_cells =
        [\<lparr>x_id = 1, x_row_id = 2, x_column_id = 1, x_value = Some (TStr ''Bob''),
          x_updated_at = 6\<rparr>],
      seq_tables = 1, seq_columns = 2, seq_rows = 2, seq_cells = 1\<rparr>"
    by (simp add: ordered_store_def op_defs users_def bob_def List.map_filter_def)
  have r: "reachable ordered_store"
    unfolding ordered_store_def by (rule reachable_session)
  have n: "map tc_name (columns_in_creation_order ordered_store users) = [''Name'', ''Age'']"
    by (simp add: s users_def columns_in_creation_order_def column_of_def)
  have h2: "distinct (map tc_name (columns_in_creation_order ordered_store users))"
    and h3: "''_rowId'' \<notin> tc_name ` set (columns_in_creation_order ordered_store users)"
    and h4: "''_position'' \<notin> tc_name ` set (columns_in_creation_order ordered_store users)"
    and h5: "''__proto__'' \<notin> tc_name ` set (columns_in_creation_order ordered_store users)"
    using n by (simp_all flip: set_map)
  have p: "map r_position (filter (\<lambda>r. r_table_id r = dt_id users) (db_rows ordered_store)) = [7, 3]"
    by (simp add: s users_def)
  have g: "DataTable_getData Index_scan ordered_store users =
     [\<lparr>obj_own = [(''_rowId'', JNum 2), (''_position'', JNum 3), (''Name'', JStr ''Bob''),
                  (''Age'', JNull)],
       obj_proto = Object_prototype\<rparr>,
      \<lparr>obj_own = [(''_rowId'', JNum 1), (''_position'', JNum 7), (''Name'', JNull),
                  (''Age'', JNull)],
       obj_proto = Object_prototype\<rparr>]"
    by (simp add: s users_def read_defs obj_defs)
  have "length (DataTable_getData Index_scan ordered_store users) =
      length (filter (\<lambda>r. r_table_id r = dt_id users) (db_rows ordered_store))"
    using getData_records[OF r h2 h3 h4 h5] by blast
  also have "\<dots> = 2" by (simp add: s users_def)
  finally have l: "length (DataTable_getData Index_scan ordered_store users) = 2" .
  show ?thesis
    by (intro conjI) (rule r n p l g)+
qed

lemma insert_index_last:
  "(\<And>p. p \<in> set ps \<Longrightarrow> \<exists>j. array_index (fst p) = Some j \<and> j \<le> i) \<Longrightarrow>
     insert_index i kv ps = ps @ [kv]"
proof (induction ps)
  case Nil
  show ?case by simp
next
  case (Cons p ps)
  obtain j where j: "array_index (fst p) = Some j" "j \<le> i"
    using Cons.prems[of p] by auto
  have "insert_index i kv ps = ps @ [kv]"
    by (rule Cons.IH) (simp add: Cons.prems)
  then show ?case using j by simp
qed

lemma put_property_last:
  assumes "\<And>p. p \<in> set ps \<Longrightarrow> key_before (fst p) k"
  shows "put_property k v ps = ps @ [(k, v)]"
proof -
  have fresh: "k \<notin> fst ` set ps"
    using assms by (auto simp: key_before_def)
  show ?thesis
  proof (cases "array_index k")
    case None
    then show ?thesis using fresh by (simp add: put_property_append)
  next
    case (Some i)
    have "\<exists>j. array_index (fst p) = Some j \<and> j \<le> i" if "p \<in> set ps" for p
      using assms[OF that] Some by (auto simp: key_before_def split: option.splits)
    then have "insert_index i (k, v) ps = ps @ [(k, v)]"
      by (rule insert_index_last)
    then show ?thesis using fresh Some by (simp add: put_property_def add_property_def)
  qed
qed

lemma foldl_define_in_order:
  "sorted_wrt key_before (map fst (obj @ kvs)) \<Longrightarrow> foldl define_property obj kvs = obj @ kvs"
proof (induction kvs arbitrary: obj)
  case Nil
  show ?case by simp
next
  case (Cons kv kvs)
  have before: "key_before (fst p) (fst kv)" if "p \<in> set obj" for p
    using Cons.prems that by (auto simp: sorted_wrt_append)
  have step: "define_property obj kv = obj @ [kv]"
    using put_property_last[of obj "fst kv" "snd kv"] before by (simp add: define_property_def)
  have "sorted_wrt key_before (map fst ((obj @ [kv]) @ kvs))"
    using Cons.prems by simp
  from Cons.IH[OF this] show ?case by (simp add: step)
qed

lemma members_roundtrip:
  assumes "\<And>k x. (k, x) \<in> set kvs \<Longrightarrow> \<exists>j. JSON_stringify x = Some j \<and> JSON_parse j = x"
  shows "map (\<lambda>(k, j). (k, JSON_parse j))
           (List.map_filter object_member (map (\<lambda>(k, x). (k, JSON_stringify x)) kvs)) = kvs"
  using assms
proof (induction kvs)
  case Nil
  show ?case by (simp add: List.map_filter_simps)
next
  case (Cons kv kvs)
  obtain k x where kv: "kv = (k, x)" by (cases kv)
  obtain j where j: "JSON_stringify x = Some j" "JSON_parse j = x"
    using Cons.prems[of k x] kv by auto
  have "map (\<lambda>(k, j). (k, JSON_parse j))
          (List.map_filter object_member (map (\<lambda>(k, x). (k, JSON_stringify x)) kvs)) = kvs"
  proof (rule Cons.IH)
    fix k' x' assume "(k', x') \<in> set kvs"
    then show "\<exists>j. JSON_stringify x' = Some j \<and> JSON_parse j = x'"
      using Cons.prems[of k' x'] by simp
  qed
  then show ?case using kv j by (simp add: List.map_filter_simps)
qed

lemma map_prod_id: "map_prod id f = (\<lambda>(k, x). (k, f x))"
  by (auto simp: fun_eq_iff)

lemma roundtrip:
  "json_safe v \<Longrightarrow> \<exists>j. JSON_stringify v = Some j \<and> JSON_parse j = v"
proof (induction v)
  case (JArr xs)
  have safe: "\<And>x. x \<in> set xs \<Longrightarrow> json_safe x"
    using JArr.prems by (auto simp: list_all_iff)
  have "map JSON_parse (map array_element (map JSON_stringify xs)) = xs"
  proof -
    have "\<And>x. x \<in> set xs \<Longrightarrow> JSON_parse (array_element (JSON_stringify x)) = x"
      using JArr.IH safe by fastforce
    then show ?thesis by (simp add: map_idI)
  qed
  then show ?case by simp
next
  case (JObj kvs)
  have d: "sorted_wrt key_before (map fst kvs)" using JObj.prems by simp
  have safe: "\<And>k x. (k, x) \<in> set kvs \<Longrightarrow> json_safe x"
    using JObj.prems by (auto simp: list_all_iff)
  have each: "\<And>k x. (k, x) \<in> set kvs \<Longrightarrow> \<exists>j. JSON_stringify x = Some j \<and> JSON_parse j = x"
    using JObj.IH safe by fastforce
  have "foldl define_property [] kvs = kvs"
    using foldl_define_in_order[of "[]" kvs] d by simp
  then show ?case
    using members_roundtrip[OF each] by (simp add: map_prod_id)
qed simp_all

text \<open>
  \<^verbatim>\<open>JSON.stringify\<close> returns \<^verbatim>\<open>undefined\<close> for \<^verbatim>\<open>undefined\<close> only, which the guard of
  \<^verbatim>\<open>CellData.set\<close> excludes: the \<open>None\<close> it binds is always SQL NULL.
\<close>

lemma JSON_stringify_None: "JSON_stringify v = None \<longleftrightarrow> v = JUndefined"
  by (cases v) simp_all

lemma find_map_update:
  assumes "\<And>x. P x \<Longrightarrow> P (g x)"
  shows "find P (map (\<lambda>x. if P x then g x else x) xs) = map_option g (find P xs)"
  using assms by (induction xs) auto

lemma upsert_cell_succeeds:
  assumes "rowId \<in> r_id ` set (db_rows db)" and "columnId \<in> c_id ` set (db_columns db)"
  shows "\<exists>db'. upsert_cell db rowId columnId v u = Inr db'"
  using assms by (simp add: upsert_cell_def Let_def)

lemma upsert_cell_find:
  assumes "upsert_cell db rowId columnId v u = Inr db'"
  shows "find (\<lambda>x. x_row_id x = rowId \<and> x_column_id x = columnId) (db_cells db') =
     Some (case find (\<lambda>x. x_row_id x = rowId \<and> x_column_id x = columnId) (db_cells db) of
             Some d \<Rightarrow> d\<lparr>x_value := v, x_updated_at := u\<rparr>
           | None \<Rightarrow> \<lparr>x_id = next_id (seq_cells db) (map x_id (db_cells db)), x_row_id = rowId,
                       x_column_id = columnId, x_value = v, x_updated_at = u\<rparr>)"
proof -
  let ?P = "\<lambda>x. x_row_id x = rowId \<and> x_column_id x = columnId"
  from upsert_cell_cases(1)[OF assms] show ?thesis
  proof (elim disjE conjE)
    assume c: "db_cells db' = map (\<lambda>x. if ?P x then x\<lparr>x_value := v, x_updated_at := u\<rparr> else x) (db_cells db)"
      and "(rowId, columnId) \<in> cell_key ` set (db_cells db)"
    then obtain d where d: "find ?P (db_cells db) = Some d"
      using find_cell_None[of rowId columnId "db_cells db"] by auto
    have "find ?P (db_cells db') = map_option (\<lambda>x. x\<lparr>x_value := v, x_updated_at := u\<rparr>) (find ?P (db_cells db))"
      unfolding c by (rule find_map_update) simp
    then show ?thesis by (simp add: d)
  next
    assume c: "db_cells db' = db_cells db @
              [\<lparr>x_id = next_id (seq_cells db) (map x_id (db_cells db)), x_row_id = rowId,
                x_column_id = columnId, x_value = v, x_updated_at = u\<rparr>]"
      and "(rowId, columnId) \<notin> cell_key ` set (db_cells db)"
    then have n: "find ?P (db_cells db) = None"
      by (simp add: find_cell_None)
    show ?thesis by (simp add: c n find_append_miss)
  qed
qed

lemma read_back_safe: "json_safe v \<Longrightarrow> read_back v = v"
  using roundtrip[of v] by (auto simp: read_back_def valueStr_of_def)

lemma CellData_set_unfold:
  "CellData_set db rowId columnId val now =
     (case upsert_cell db rowId columnId (valueStr_of val) now of
        Inl e \<Rightarrow> Inl e
      | Inr db' \<Rightarrow>
          (case find (\<lambda>x. x_row_id x = rowId \<and> x_column_id x = columnId) (db_cells db') of
             None \<Rightarrow> Inl TypeError
           | Some data \<Rightarrow> Inr (db', cell_of data)))"
  by (simp only: CellData_set_def valueStr_of_def Let_def)

lemma CellData_set_Inr:
  assumes "CellData_set db rowId columnId val now = Inr (db', cell)"
  shows "CellData_get db' rowId columnId = Some cell"
    and "cd_value cell = read_back val" and "cd_updatedAt cell = now"
    and "cd_rowId cell = rowId" and "cd_columnId cell = columnId"
    and "cd_id cell = (case CellData_get db rowId columnId of Some c \<Rightarrow> cd_id c
                       | None \<Rightarrow> next_id (seq_cells db) (map x_id (db_cells db)))"
    and "upsert_cell db rowId columnId (valueStr_of val) now = Inr db'"
proof -
  let ?P = "\<lambda>x. x_row_id x = rowId \<and> x_column_id x = columnId"
  define v where "v = valueStr_of val"
  define stored where "stored = (case find ?P (db_cells db) of
             Some d \<Rightarrow> d\<lparr>x_value := v, x_updated_at := now\<rparr>
           | None \<Rightarrow> \<lparr>x_id = next_id (seq_cells db) (map x_id (db_cells db)), x_row_id = rowId,
                       x_column_id = columnId, x_value = v, x_updated_at = now\<rparr>)"
  have u: "upsert_cell db rowId columnId v now = Inr db' \<and> cell = cell_of stored"
  proof (cases "upsert_cell db rowId columnId v now")
    case (Inl e)
    with assms show ?thesis by (simp add: CellData_set_unfold v_def)
  next
    case (Inr db1)
    have "find ?P (db_cells db1) = Some stored"
      unfolding stored_def by (rule upsert_cell_find[OF Inr])
    with assms Inr show ?thesis by (simp add: CellData_set_unfold v_def)
  qed
  then show "upsert_cell db rowId columnId (valueStr_of val) now = Inr db'"
    by (simp add: v_def)
  have f: "find ?P (db_cells db') = Some stored"
    unfolding stored_def using u by (intro upsert_cell_find) simp
  show "CellData_get db' rowId columnId = Some cell"
    using f u by (simp add: CellData_get_def)
  have sv: "x_value stored = v" and su: "x_updated_at stored = now"
    by (simp_all add: stored_def split: option.splits)
  show "cd_value cell = read_back val"
    using u sv by (simp add: cell_of_def read_back_def v_def)
  show "cd_updatedAt cell = now"
    using u su by (simp add: cell_of_def)
  have "?P stored"
    using f by (auto dest: find_Some_iff[THEN iffD1])
  then show "cd_rowId cell = rowId" "cd_columnId cell = columnId"
    using u by (simp_all add: cell_of_def)
  have "x_id stored = (case find ?P (db_cells db) of Some d \<Rightarrow> x_id d
                       | None \<Rightarrow> next_id (seq_cells db) (map x_id (db_cells db)))"
    by (simp add: stored_def split: option.splits)
  then show "cd_id cell = (case CellData_get db rowId columnId of Some c \<Rightarrow> cd_id c
                       | None \<Rightarrow> next_id (seq_cells db) (map x_id (db_cells db)))"
    using u by (simp add: cell_of_def CellData_get_def split: option.splits)
qed

lemma CellData_set_succeeds:
  assumes "rowId \<in> r_id ` set (db_rows db)" and "columnId \<in> c_id ` set (db_columns db)"
  shows "\<exists>db' cell. CellData_set db rowId columnId val now = Inr (db', cell)"
proof -
  obtain db' where u: "upsert_cell db rowId columnId (valueStr_of val) now = Inr db'"
    using upsert_cell_succeeds[OF assms] by blast
  from upsert_cell_find[OF u] show ?thesis
    by (simp add: CellData_set_unfold u)
qed

text \<open>
  The float NaN is stored as the JSON text \<^verbatim>\<open>null\<close>: \<^verbatim>\<open>setCell\<close> and a later \<^verbatim>\<open>getCell\<close> both
  return a cell whose value is null.
\<close>

theorem setCell_NaN_counterexample:
  "tr_id alice \<in> r_id ` set (db_rows demo_store) \<and> 1 \<in> c_id ` set (db_columns demo_store) \<and>
   map_sum id (cd_value \<circ> snd) (TableRow_setCell demo_store alice 1 JNaN 12) = Inr JNull \<and>
   map_option cd_value (TableRow_getCell (perform demo_store (SetCell alice 1 JNaN 12)) alice 1) =
     Some JNull \<and>
   JNull \<noteq> JNaN"
  by (simp add: demo_store_eq alice_def op_defs TableRow_getCell_def CellData_get_def cell_of_def)

lemma read_back_non_finite:
  "read_back JNaN = JNull" "read_back JInfinity = JNull" "read_back JNegInfinity = JNull"
  "read_back JUndefined = JNull"
  by (simp_all add: read_back_def valueStr_of_def)

text \<open>
  C2, amended. For an existing row and column, \<^verbatim>\<open>setCell\<close> succeeds for every value and
  returns a cell, which \<^verbatim>\<open>getCell\<close> on the resulting store returns again. Its value is the
  value written when that is built from strings, finite numbers, booleans, null, arrays
  and objects; it is null when the value written is NaN, Infinity or -Infinity.
\<close>

theorem setCell_getCell_roundtrip:
  assumes "tr_id row \<in> r_id ` set (db_rows db)" and "columnId \<in> c_id ` set (db_columns db)"
  shows "\<exists>db' cell. TableRow_setCell db row columnId v now = Inr (db', cell) \<and>
           TableRow_getCell db' row columnId = Some cell \<and>
           cd_value cell = read_back v \<and>
           (json_safe v \<longrightarrow> cd_value cell = v) \<and>
           (v = JNaN \<or> v = JInfinity \<or> v = JNegInfinity \<longrightarrow> cd_value cell = JNull)"
proof -
  obtain db' cell where s: "CellData_set db (tr_id row) columnId v now = Inr (db', cell)"
    using CellData_set_succeeds[OF assms] by blast
  note f = CellData_set_Inr[OF s]
  have 1: "json_safe v \<longrightarrow> cd_value cell = v" using f(2) read_back_safe by simp
  have 2: "v = JNaN \<or> v = JInfinity \<or> v = JNegInfinity \<longrightarrow> cd_value cell = JNull"
    using f(2) read_back_non_finite by auto
  show ?thesis
    using s f(1,2) 1 2 by (simp add: TableRow_setCell_def TableRow_getCell_def)
qed

theorem setCell_getCell_roundtrip_witness:
  "json_safe (JObj [(''tags'', JArr [JStr [], JNum (3 / 2), JBool False, JNull]), (''n'', JNum 0)]) \<and>
   tr_id alice \<in> r_id ` set (db_rows demo_store) \<and> 2 \<in> c_id ` set (db_columns demo_store) \<and>
   (\<exists>db' cell.
      TableRow_setCell demo_store alice 2
        (JObj [(''tags'', JArr [JStr [], JNum (3 / 2), JBool False, JNull]), (''n'', JNum 0)]) 12 =
        Inr (db', cell) \<and>
      TableRow_getCell db' alice 2 = Some cell \<and>
      cd_value cell = JObj [(''tags'', JArr [JStr [], JNum (3 / 2), JBool False, JNull]), (''n'', JNum 0)]) \<and>
   (\<exists>db' cell.
      TableRow_setCell demo_store alice 2 JInfinity 12 = Inr (db', cell) \<and>
      TableRow_getCell db' alice 2 = Some cell \<and> cd_value cell = JNull)"
proof -
  have 1: "json_safe (JObj [(''tags'', JArr [JStr [], JNum (3 / 2), JBool False, JNull]), (''n'', JNum 0)])"
    by (simp add: key_before_def array_index_def is_digit_def)
  have 2: "tr_id alice \<in> r_id ` set (db_rows demo_store)"
    by (simp add: demo_store_eq alice_def)
  have 3: "2 \<in> c_id ` set (db_columns demo_store)"
    by (simp add: demo_store_eq)
  show ?thesis
    using setCell_getCell_roundtrip[OF 2 3, of "JObj [(''tags'', JArr [JStr [], JNum (3 / 2), JBool False, JNull]), (''n'', JNum 0)]" 12]
      setCell_getCell_roundtrip[OF 2 3, of JInfinity 12] 1 2 3
    by blast
qed

text \<open>
  Two writes of the same pair at the same clock reading: both cells carry the timestamp
  12, so the second is not later than the first.
\<close>

theorem setCell_same_millisecond_counterexample:
  "tr_id alice \<in> r_id ` set (db_rows demo_store) \<and> 1 \<in> c_id ` set (db_columns demo_store) \<and>
   map_sum id (cd_updatedAt \<circ> snd) (TableRow_setCell demo_store alice 1 (JStr ''Al'') 12) = Inr 12 \<and>
   map_sum id (cd_updatedAt \<circ> snd)
     (TableRow_setCell (perform demo_store (SetCell alice 1 (JStr ''Al'') 12)) alice 1 (JStr ''Alice'') 12) =
     Inr 12"
  by (simp add: demo_store_eq alice_def op_defs cell_of_def)

text \<open>
  C3, amended. On a reachable store with the row and the column present, two \<^verbatim>\<open>setCell\<close>
  calls on the same pair succeed and leave exactly one cell for the pair; the second call
  adds no cell and returns the cell of the first with the same id, which is also what
  \<^verbatim>\<open>getCell\<close> then finds. Its value is what the encoding makes of \<open>v2\<close>, whatever \<open>v1\<close> was:
  \<open>v2\<close> itself for a value JSON carries, null for \<^verbatim>\<open>undefined\<close> and the non-finite numbers.
  Its \<^verbatim>\<open>updatedAt\<close> is the clock reading of the second call, the first cell's that of the
  first.
\<close>

theorem setCell_twice:
  assumes "reachable db"
    and "tr_id row \<in> r_id ` set (db_rows db)" and "columnId \<in> c_id ` set (db_columns db)"
  shows "\<exists>db1 cell1 db2 cell2.
           TableRow_setCell db row columnId v1 t1 = Inr (db1, cell1) \<and>
           TableRow_setCell db1 row columnId v2 t2 = Inr (db2, cell2) \<and>
           length (filter (\<lambda>x. x_row_id x = tr_id row \<and> x_column_id x = columnId) (db_cells db2)) = 1 \<and>
           length (db_cells db2) = length (db_cells db1) \<and>
           cd_id cell2 = cd_id cell1 \<and>
           TableRow_getCell db2 row columnId = Some cell2 \<and>
           cd_value cell2 = read_back v2 \<and>
           (json_safe v2 \<longrightarrow> cd_value cell2 = v2) \<and>
           (v2 = JUndefined \<or> v2 = JNaN \<or> v2 = JInfinity \<or> v2 = JNegInfinity \<longrightarrow>
              cd_value cell2 = JNull) \<and>
           cd_updatedAt cell1 = t1 \<and> cd_updatedAt cell2 = t2"
proof -
  let ?P = "\<lambda>x. x_row_id x = tr_id row \<and> x_column_id x = columnId"
  obtain db1 cell1 where s1: "CellData_set db (tr_id row) columnId v1 t1 = Inr (db1, cell1)"
    using CellData_set_succeeds[OF assms(2,3)] by blast
  note f1 = CellData_set_Inr[OF s1]
  have same: "db_rows db1 = db_rows db" "db_columns db1 = db_columns db"
    using upsert_cell_cases(3,4)[OF f1(7)] by simp_all
  have r1: "tr_id row \<in> r_id ` set (db_rows db1)" and c1: "columnId \<in> c_id ` set (db_columns db1)"
    using assms(2,3) by (simp_all only: same)
  obtain db2 cell2 where s2: "CellData_set db1 (tr_id row) columnId v2 t2 = Inr (db2, cell2)"
    using CellData_set_succeeds[OF r1 c1] by blast
  note f2 = CellData_set_Inr[OF s2]
  have present: "(tr_id row, columnId) \<in> cell_key ` set (db_cells db1)"
    using f1(1) CellData_get_None[of db1 "tr_id row" columnId] by simp
  have len: "length (db_cells db2) = length (db_cells db1)"
    using upsert_cell_cases(1)[OF f2(7)] present by auto
  have r2: "reachable db2"
    using assms(1) s1 s2 by (blast intro: reachable.cell_set)
  have "distinct (map cell_key (db_cells db2))"
    using reachable_schema_ok[OF r2] by (simp add: schema_ok_def)
  then have "length (filter (\<lambda>x. cell_key x = (tr_id row, columnId)) (db_cells db2)) \<le> 1"
    by (rule distinct_key_count)
  then have le: "length (filter ?P (db_cells db2)) \<le> 1" by (simp add: cell_key_def)
  have "(tr_id row, columnId) \<in> cell_key ` set (db_cells db2)"
    using f2(1) CellData_get_None[of db2 "tr_id row" columnId] by simp
  then have "filter ?P (db_cells db2) \<noteq> []"
    by (auto simp: filter_empty_conv cell_key_def)
  then have "length (filter ?P (db_cells db2)) \<noteq> 0" by simp
  with le have one: "length (filter ?P (db_cells db2)) = 1" by linarith
  have id: "cd_id cell2 = cd_id cell1" using f2(6) f1(1) by simp
  have val: "json_safe v2 \<longrightarrow> cd_value cell2 = v2"
    using f2(2) read_back_safe by simp
  have nf: "v2 = JUndefined \<or> v2 = JNaN \<or> v2 = JInfinity \<or> v2 = JNegInfinity \<longrightarrow>
              cd_value cell2 = JNull"
    using f2(2) read_back_non_finite by auto
  show ?thesis
    using s1 s2 one len id f2(1,2) val nf f1(3) f2(3)
    unfolding TableRow_setCell_def TableRow_getCell_def by blast
qed

theorem setCell_twice_witness:
  "reachable demo_store \<and> tr_id bob \<in> r_id ` set (db_rows demo_store) \<and>
   1 \<in> c_id ` set (db_columns demo_store) \<and>
   (\<exists>db1 cell1 db2 cell2.
      TableRow_setCell demo_store bob 1 (JStr ''Rob'') 12 = Inr (db1, cell1) \<and>
      TableRow_setCell db1 bob 1 (JStr ''Bob'') 13 = Inr (db2, cell2) \<and>
      length (filter (\<lambda>x. x_row_id x = tr_id bob \<and> x_column_id x = 1) (db_cells db2)) = 1 \<and>
      cd_id cell2 = cd_id cell1 \<and> cd_value cell2 = JStr ''Bob'' \<and>
      cd_updatedAt cell1 = 12 \<and> cd_updatedAt cell2 = 13)"
proof -
  have r: "reachable demo_store"
    unfolding demo_store_def by (rule reachable_session)
  have 2: "tr_id bob \<in> r_id ` set (db_rows demo_store)"
    by (simp add: demo_store_eq bob_def)
  have 3: "1 \<in> c_id ` set (db_columns demo_store)"
    by (simp add: demo_store_eq)
  have "json_safe (JStr ''Bob'')" by simp
  then show ?thesis
    using setCell_twice[OF r 2 3, of "JStr ''Rob''" 12 "JStr ''Bob''" 13] r 2 3 by blast
qed









end
